theory Spec2Isabelle
  imports Complex_Main "HOL-Library.AList" "HOL-Library.Sublist"
begin

section \<open>Errors, results and effectful computations\<close>

text \<open>
  A JavaScript \<open>Error\<close> carries a message and, for the errors of the \<open>fs\<close> module, a
  code such as \<open>EBUSY\<close>.  An \<open>async\<close> function of the service becomes a function from
  the state before the call to its outcome (a value, or the thrown error) and the state
  at that moment: what was written before a \<open>throw\<close> stays written.
\<close>

datatype Err = Err (err_message: string) (err_code: "string option")

definition Error :: "string \<Rightarrow> Err" where
  "Error msg = Err msg None"

datatype 'a res = Ok 'a | Throw Err

definition returnM :: "'a \<Rightarrow> 's \<Rightarrow> 'a res \<times> 's" where
  "returnM x s = (Ok x, s)"

definition throwM :: "Err \<Rightarrow> 's \<Rightarrow> 'a res \<times> 's" where
  "throwM e s = (Throw e, s)"

definition bindM :: "('s \<Rightarrow> 'a res \<times> 's) \<Rightarrow> ('a \<Rightarrow> 's \<Rightarrow> 'b res \<times> 's) \<Rightarrow> 's \<Rightarrow> 'b res \<times> 's" where
  "bindM m f s = (case m s of (Ok x, s') \<Rightarrow> f x s' | (Throw e, s') \<Rightarrow> (Throw e, s'))"

definition thenM :: "('s \<Rightarrow> 'a res \<times> 's) \<Rightarrow> ('s \<Rightarrow> 'b res \<times> 's) \<Rightarrow> 's \<Rightarrow> 'b res \<times> 's" where
  "thenM m n = bindM m (\<lambda>_. n)"

definition tryCatch :: "('s \<Rightarrow> 'a res \<times> 's) \<Rightarrow> (Err \<Rightarrow> 's \<Rightarrow> 'a res \<times> 's) \<Rightarrow> 's \<Rightarrow> 'a res \<times> 's" where
  "tryCatch m h s = (case m s of (Ok x, s') \<Rightarrow> (Ok x, s') | (Throw e, s') \<Rightarrow> h e s')"

definition whenM :: "bool \<Rightarrow> ('s \<Rightarrow> unit res \<times> 's) \<Rightarrow> 's \<Rightarrow> unit res \<times> 's" where
  "whenM b m = (if b then m else returnM ())"

definition modifyM :: "('s \<Rightarrow> 's) \<Rightarrow> 's \<Rightarrow> unit res \<times> 's" where
  "modifyM f s = (Ok (), f s)"

fun seqM :: "('s \<Rightarrow> unit res \<times> 's) list \<Rightarrow> 's \<Rightarrow> unit res \<times> 's" where
  "seqM [] = returnM ()"
| "seqM (m # ms) = thenM m (seqM ms)"

fun forM :: "'a list \<Rightarrow> ('a \<Rightarrow> 's \<Rightarrow> unit res \<times> 's) \<Rightarrow> 's \<Rightarrow> unit res \<times> 's" where
  "forM [] f = returnM ()"
| "forM (x # xs) f = thenM (f x) (forM xs f)"

section \<open>The file system\<close>

text \<open>
  A path is the list of its components (\<open>path.join\<close> appends); a name holds no
  separator.  The disk is a tree: a file with its content, or a directory listing.
  \<open>lookup\<close> reads the first binding of a name in a listing.
\<close>

type_synonym path = "string list"

datatype node = File string | Dir "(string \<times> node) list"

fun lookup :: "node option \<Rightarrow> path \<Rightarrow> node option" where
  "lookup t [] = t"
| "lookup None (x # xs) = None"
| "lookup (Some (File c)) (x # xs) = None"
| "lookup (Some (Dir es)) (x # xs) = lookup (map_of es x) xs"

text \<open>\<open>fs.remove\<close>: delete the subtree at the path; nothing happens when it is absent.\<close>

fun remove_at :: "path \<Rightarrow> node option \<Rightarrow> node option" where
  "remove_at [] t = None"
| "remove_at (x # xs) None = None"
| "remove_at (x # xs) (Some (File c)) = Some (File c)"
| "remove_at (x # xs) (Some (Dir es)) =
     (case remove_at xs (map_of es x) of
        None \<Rightarrow> Some (Dir (AList.delete x es))
      | Some c \<Rightarrow> Some (Dir (AList.update x c es)))"

text \<open>\<open>fs.ensureDir\<close>: \<open>mkdir -p\<close>; it fails when a component of the path is a file.\<close>

fun mkdirs :: "path \<Rightarrow> node option \<Rightarrow> Err + node" where
  "mkdirs [] None = Inr (Dir [])"
| "mkdirs [] (Some (Dir es)) = Inr (Dir es)"
| "mkdirs [] (Some (File c)) = Inl (Err ''EEXIST: file already exists'' (Some ''EEXIST''))"
| "mkdirs (x # xs) None =
     (case mkdirs xs None of Inl e \<Rightarrow> Inl e | Inr c \<Rightarrow> Inr (Dir [(x, c)]))"
| "mkdirs (x # xs) (Some (File c)) = Inl (Err ''ENOTDIR: not a directory'' (Some ''ENOTDIR''))"
| "mkdirs (x # xs) (Some (Dir es)) =
     (case mkdirs xs (map_of es x) of Inl e \<Rightarrow> Inl e | Inr c \<Rightarrow> Inr (Dir (AList.update x c es)))"

text \<open>
  \<open>fs.copy\<close> with \<open>overwrite\<close> (the default): a file replaces a file, a directory is
  merged into a directory entry by entry, and a file meeting a directory, either way, is
  an error.  The entries later in a listing are merged first, so that the first binding
  of a name, the one \<open>lookup\<close> reads, is the one that stays; in a listing without a
  repeated name the order is immaterial.
\<close>

fun merge_node :: "node \<Rightarrow> node option \<Rightarrow> Err + node"
  and merge_entries :: "(string \<times> node) list \<Rightarrow> (string \<times> node) list \<Rightarrow> Err + (string \<times> node) list" where
  "merge_node (File c) None = Inr (File c)"
| "merge_node (File c) (Some (File d)) = Inr (File c)"
| "merge_node (File c) (Some (Dir ds)) =
     Inl (Error ''Cannot overwrite directory with non-directory'')"
| "merge_node (Dir es) None =
     (case merge_entries es [] of Inl e \<Rightarrow> Inl e | Inr r \<Rightarrow> Inr (Dir r))"
| "merge_node (Dir es) (Some (File d)) =
     Inl (Error ''Cannot overwrite non-directory with directory'')"
| "merge_node (Dir es) (Some (Dir ds)) =
     (case merge_entries es ds of Inl e \<Rightarrow> Inl e | Inr r \<Rightarrow> Inr (Dir r))"
| "merge_entries [] ds = Inr ds"
| "merge_entries ((x, c) # es) ds =
     (case merge_entries es ds of
        Inl e \<Rightarrow> Inl e
      | Inr ds' \<Rightarrow>
          (case merge_node c (map_of ds' x) of
             Inl e \<Rightarrow> Inl e
           | Inr c' \<Rightarrow> Inr (AList.update x c' ds')))"

text \<open>Put a copy of \<open>src\<close> at a path, creating the directories above it.\<close>

fun place :: "path \<Rightarrow> node \<Rightarrow> node option \<Rightarrow> Err + node" where
  "place [] src t = merge_node src t"
| "place (x # xs) src None =
     (case place xs src None of Inl e \<Rightarrow> Inl e | Inr c \<Rightarrow> Inr (Dir [(x, c)]))"
| "place (x # xs) src (Some (File c)) = Inl (Err ''ENOTDIR: not a directory'' (Some ''ENOTDIR''))"
| "place (x # xs) src (Some (Dir es)) =
     (case place xs src (map_of es x) of Inl e \<Rightarrow> Inl e | Inr c \<Rightarrow> Inr (Dir (AList.update x c es)))"

definition copy_at :: "path \<Rightarrow> path \<Rightarrow> node \<Rightarrow> Err + node" where
  "copy_at src dest d =
     (case lookup (Some d) src of
        None \<Rightarrow> Inl (Err ''ENOENT: no such file or directory'' (Some ''ENOENT''))
      | Some n \<Rightarrow>
          if prefix src dest then Inl (Error ''Cannot copy to a subdirectory of itself'')
          else place dest n (Some d))"

definition isFile :: "node option \<Rightarrow> bool" where
  "isFile t = (case t of Some (File c) \<Rightarrow> True | _ \<Rightarrow> False)"

definition isDirectory :: "node option \<Rightarrow> bool" where
  "isDirectory t = (case t of Some (Dir es) \<Rightarrow> True | _ \<Rightarrow> False)"

section \<open>The state of the service and of its collaborators\<close>

datatype UpdateStatus =
  pending | stopping | backing_up | preserving | downloading | installing
  | restoring | starting | completed | failed | rolled_back

text \<open>
  The message of a session is a string; the one built from the provider's percentage
  (\<open>Downloading: ${downloadProgress}%\<close>) is kept as the number it shows.
\<close>

datatype Message = Text string | DownloadingPercent real

record UpdateSession =
  sessionId :: string
  serverId :: string
  fromVersion :: string
  toVersion :: string
  status :: UpdateStatus
  progress :: int
  message :: "Message option"
  error :: "string option"
  backupId :: "string option"
  startedAt :: nat
  wasRunning :: bool
  downloadSessionId :: "string option"
  tempPreservePath :: "path option"

text \<open>The columns of the \<open>Server\<close> and \<open>ServerUpdateHistory\<close> tables the service uses.\<close>

record Server =
  name :: string
  version :: string
  serverStatus :: string
  serverPath :: path
  updateInProgress :: bool
  preUpdateBackupId :: "string option"
  availableVersion :: "string option"

record History =
  h_serverId :: string
  h_fromVersion :: string
  h_toVersion :: string
  h_status :: UpdateStatus
  h_error :: "string option"
  h_backupId :: "string option"
  h_startedAt :: nat
  h_completedAt :: "nat option"

datatype Event =
  UpdateStarted string string string string string
  | UpdateProgress string string UpdateStatus int "Message option"
  | UpdateCompleted string string string string
  | UpdateFailed string string string
  | UpdateCancelled string string
  | RollbackCompleted string

text \<open>The calls made to the collaborators, and the waits, in the order they happen.\<close>

datatype Call =
  StopServer string
  | StartServer string
  | CreateBackup string string
  | RestoreBackup string
  | GetGameVersion
  | StartDownload path
  | CancelDownload string
  | Notify string string
  | Sleep nat
  | FsRemove path

text \<open>
  A session is a JavaScript object shared between the session map, the running pipeline
  and \<open>cancelUpdate\<close>: the objects live in \<open>heap\<close>, and the map and the local variables
  hold references.  The history table is indexed by the record's id.  \<open>fsClock\<close> counts
  the calls made so far to the fallible operations of the file system.
\<close>

record World =
  servers :: "string \<rightharpoonup> Server"
  historyTable :: "History list"
  heap :: "nat \<Rightarrow> UpdateSession"
  nextRef :: nat
  sessions :: "string \<rightharpoonup> nat"
  disk :: node
  events :: "Event list"
  calls :: "Call list"
  fsClock :: nat

record DownloadSession =
  d_progress :: real
  d_status :: string
  d_error :: "string option"

text \<open>
  What the collaborators answer.  \<open>fsFault n\<close> is the error, if any, that the \<open>n\<close>-th
  fallible call to the file system raises (a locked file, a permission, a full disk).
  The services that \<open>initialize\<close> may leave undefined are flags.  \<open>laidDown\<close> is what
  the provider's download does to the disk, \<open>poll k\<close> what \<open>getDownloadSession\<close> returns
  at the \<open>k\<close>-th tick of the wait, \<open>ticksBeforeTimeout\<close> the number of ticks of the
  one-second interval that the runtime runs before the thirty-minute timer, and
  \<open>cancelAt k\<close> says that a concurrent \<open>cancelUpdate\<close> of the session ran just before
  tick \<open>k\<close>.  \<open>ieee x\<close> is the Number to which the runtime rounds the exact result \<open>x\<close> of
  an arithmetic operation on Numbers.
\<close>

record Env =
  fsFault :: "nat \<Rightarrow> Err option"
  dateNow :: nat
  randomSuffix :: string
  hasServerService :: bool
  hasBackupService :: bool
  hasDiscordService :: bool
  stopServerOut :: "Err option"
  startServerOut :: "Err option"
  createBackupOut :: "Err + string"
  restoreBackupOut :: "Err option"
  getGameVersionOut :: "Err + string option"
  startDownloadOut :: "Err + string"
  laidDown :: "node \<Rightarrow> node"
  poll :: "nat \<Rightarrow> DownloadSession option"
  ticksBeforeTimeout :: nat
  cancelAt :: "nat \<Rightarrow> bool"
  ieee :: "real \<Rightarrow> real"

text \<open>JavaScript's truthiness of an optional string: \<open>undefined\<close>, \<open>null\<close> and \<open>''\<close> are falsy.\<close>

definition truthy :: "'a list option \<Rightarrow> bool" where
  "truthy x = (case x of None \<Rightarrow> False | Some v \<Rightarrow> v \<noteq> [])"

subsection \<open>Events, calls and the file system on the state\<close>

definition logCall :: "Call \<Rightarrow> World \<Rightarrow> unit res \<times> World" where
  "logCall c = modifyM (\<lambda>w. w\<lparr>calls := calls w @ [c]\<rparr>)"

definition emit :: "Event \<Rightarrow> World \<Rightarrow> unit res \<times> World" where
  "emit ev = modifyM (\<lambda>w. w\<lparr>events := events w @ [ev]\<rparr>)"

definition sleep :: "nat \<Rightarrow> World \<Rightarrow> unit res \<times> World" where
  "sleep ms = logCall (Sleep ms)"

text \<open>A fallible call: the fault of its turn is raised, or the operation is done.\<close>

definition fsCall :: "Env \<Rightarrow> (node \<Rightarrow> Err + node) \<Rightarrow> World \<Rightarrow> unit res \<times> World" where
  "fsCall env f w =
     (let w' = w\<lparr>fsClock := Suc (fsClock w)\<rparr> in
      case fsFault env (fsClock w) of
        Some e \<Rightarrow> (Throw e, w')
      | None \<Rightarrow> (case f (disk w) of Inl e \<Rightarrow> (Throw e, w') | Inr d \<Rightarrow> (Ok (), w'\<lparr>disk := d\<rparr>)))"

text \<open>\<open>fs.pathExists\<close> never throws.\<close>

definition fs_pathExists :: "path \<Rightarrow> World \<Rightarrow> bool" where
  "fs_pathExists p w = (lookup (Some (disk w)) p \<noteq> None)"

definition fs_remove :: "Env \<Rightarrow> path \<Rightarrow> World \<Rightarrow> unit res \<times> World" where
  "fs_remove env p =
     thenM (logCall (FsRemove p))
       (fsCall env (\<lambda>d. Inr (case remove_at p (Some d) of None \<Rightarrow> Dir [] | Some d' \<Rightarrow> d')))"

definition fs_ensureDir :: "Env \<Rightarrow> path \<Rightarrow> World \<Rightarrow> unit res \<times> World" where
  "fs_ensureDir env p = fsCall env (\<lambda>d. mkdirs p (Some d))"

definition fs_copy :: "Env \<Rightarrow> path \<Rightarrow> path \<Rightarrow> World \<Rightarrow> unit res \<times> World" where
  "fs_copy env src dest = fsCall env (copy_at src dest)"

definition fs_readdir :: "Env \<Rightarrow> path \<Rightarrow> World \<Rightarrow> string list res \<times> World" where
  "fs_readdir env p w =
     (let w' = w\<lparr>fsClock := Suc (fsClock w)\<rparr> in
      case fsFault env (fsClock w) of
        Some e \<Rightarrow> (Throw e, w')
      | None \<Rightarrow>
          (case lookup (Some (disk w)) p of
             None \<Rightarrow> (Throw (Err ''ENOENT: no such file or directory'' (Some ''ENOENT'')), w')
           | Some (File c) \<Rightarrow> (Throw (Err ''ENOTDIR: not a directory'' (Some ''ENOTDIR'')), w')
           | Some (Dir es) \<Rightarrow> (Ok (map fst es), w')))"

section \<open>Removal with retry\<close>

definition LOCKED_FILE_ERRORS :: "string list" where
  "LOCKED_FILE_ERRORS = [''ENOTEMPTY'', ''EBUSY'', ''EACCES'', ''EPERM'', ''ETXTBSY'']"

definition isLockedError :: "Err \<Rightarrow> bool" where
  "isLockedError e = (case err_code e of None \<Rightarrow> False | Some c \<Rightarrow> c \<in> set LOCKED_FILE_ERRORS)"

text \<open>
  The \<open>for\<close> loop of \<open>removeWithRetry\<close>, from its current \<open>attempt\<close>; past
  \<open>maxAttempts\<close> the loop is left and the function returns.
\<close>

function removeLoop :: "Env \<Rightarrow> path \<Rightarrow> nat \<Rightarrow> nat \<Rightarrow> nat \<Rightarrow> World \<Rightarrow> unit res \<times> World" where
  "removeLoop env targetPath maxAttempts delayMs attempt w =
     (if attempt \<le> maxAttempts then
        (case fs_remove env targetPath w of
           (Ok u, w') \<Rightarrow> (Ok (), w')
         | (Throw e, w') \<Rightarrow>
             if isLockedError e \<and> attempt < maxAttempts
             then (case sleep delayMs w' of
                     (r, w'') \<Rightarrow> removeLoop env targetPath maxAttempts delayMs (Suc attempt) w'')
             else (Throw e, w'))
      else (Ok (), w))"
  by pat_completeness auto
termination
  by (relation "measure (\<lambda>(env, p, maxAttempts, delayMs, attempt, w). Suc maxAttempts - attempt)") auto

declare removeLoop.simps [simp del]

definition removeWithRetry :: "Env \<Rightarrow> path \<Rightarrow> nat \<Rightarrow> nat \<Rightarrow> World \<Rightarrow> unit res \<times> World" where
  "removeWithRetry env targetPath maxAttempts delayMs = removeLoop env targetPath maxAttempts delayMs 1"

section \<open>Finding and preserving the user's files\<close>

text \<open>The pattern \<open>/\.json$/i\<close> on a file name.\<close>

definition jsonName :: "string \<Rightarrow> bool" where
  "jsonName n =
     (case rev n of
        c4 # c3 # c2 # c1 # c0 # cs \<Rightarrow>
          c0 = CHR ''.'' \<and> (c1 = CHR ''j'' \<or> c1 = CHR ''J'') \<and> (c2 = CHR ''s'' \<or> c2 = CHR ''S'')
          \<and> (c3 = CHR ''o'' \<or> c3 = CHR ''O'') \<and> (c4 = CHR ''n'' \<or> c4 = CHR ''N'')
      | _ \<Rightarrow> False)"

text \<open>
  \<open>findFilesRecursive\<close>: \<open>walk\<close> reads a directory (one fallible call), descends into
  the entries that are directories and collects, as paths relative to the start, the
  files whose name matches.  The disk does not change during the walk, so \<open>walk\<close> is
  given the directory it reads; the clock of the fallible calls is threaded through.
\<close>

fun walk :: "Env \<Rightarrow> node \<Rightarrow> path \<Rightarrow> path list \<Rightarrow> nat \<Rightarrow> path list res \<times> nat"
  and walk_entries :: "Env \<Rightarrow> (string \<times> node) list \<Rightarrow> path \<Rightarrow> path list \<Rightarrow> nat \<Rightarrow> path list res \<times> nat" where
  "walk env (File c) relativePath results clk =
     (case fsFault env clk of
        Some e \<Rightarrow> (Throw e, Suc clk)
      | None \<Rightarrow> (Throw (Err ''ENOTDIR: not a directory'' (Some ''ENOTDIR'')), Suc clk))"
| "walk env (Dir es) relativePath results clk =
     (case fsFault env clk of
        Some e \<Rightarrow> (Throw e, Suc clk)
      | None \<Rightarrow> walk_entries env es relativePath results (Suc clk))"
| "walk_entries env [] relativePath results clk = (Ok results, clk)"
| "walk_entries env ((entry, File c) # es) relativePath results clk =
     walk_entries env es relativePath
       (if jsonName entry then results @ [relativePath @ [entry]] else results) clk"
| "walk_entries env ((entry, Dir ds) # es) relativePath results clk =
     (case walk env (Dir ds) (relativePath @ [entry]) results clk of
        (Throw e, clk') \<Rightarrow> (Throw e, clk')
      | (Ok results', clk') \<Rightarrow> walk_entries env es relativePath results' clk')"

definition findFilesRecursive :: "Env \<Rightarrow> path \<Rightarrow> World \<Rightarrow> path list res \<times> World" where
  "findFilesRecursive env dir w =
     (case lookup (Some (disk w)) dir of
        None \<Rightarrow> (Ok [], w)
      | Some n \<Rightarrow> (case walk env n [] [] (fsClock w) of (r, clk) \<Rightarrow> (r, w\<lparr>fsClock := clk\<rparr>)))"

record PreservedPaths =
  configs :: "path list"
  modsPath :: path
  universePath :: path
  logsPath :: path

definition identifyPreservedPaths :: "Env \<Rightarrow> path \<Rightarrow> World \<Rightarrow> PreservedPaths res \<times> World" where
  "identifyPreservedPaths env srvPath =
     (let serverDir = srvPath @ [''Server''] in
      bindM (tryCatch (findFilesRecursive env serverDir) (\<lambda>e. returnM []))
        (\<lambda>cs. returnM \<lparr>configs = cs, modsPath = serverDir @ [''mods''],
                 universePath = serverDir @ [''universe''], logsPath = serverDir @ [''logs'']\<rparr>))"

text \<open>The decimal digits of \<open>Date.now()\<close>, which name the temporary directory.\<close>

fun decimal :: "nat \<Rightarrow> string" where
  "decimal n = (if n < 10 then [''0123456789'' ! n] else decimal (n div 10) @ [''0123456789'' ! (n mod 10)])"

declare decimal.simps [simp del]

definition tempPathOf :: "Env \<Rightarrow> path \<Rightarrow> path" where
  "tempPathOf env srvPath = srvPath @ [''.update-preserve-'' @ decimal (dateNow env)]"

definition copyIfExists :: "Env \<Rightarrow> path \<times> path \<Rightarrow> World \<Rightarrow> unit res \<times> World" where
  "copyIfExists env dir w =
     (if fs_pathExists (fst dir) w then fs_copy env (fst dir) (snd dir) w else returnM () w)"

definition preserveFiles :: "Env \<Rightarrow> path \<Rightarrow> PreservedPaths \<Rightarrow> World \<Rightarrow> path res \<times> World" where
  "preserveFiles env srvPath preserved =
     (let tempPath = tempPathOf env srvPath;
          serverDir = srvPath @ [''Server''] in
      thenM (seqM
        [fs_ensureDir env tempPath,
         forM (configs preserved) (\<lambda>configFile w.
           let srcPath = serverDir @ configFile;
               destPath = tempPath @ [''configs''] @ configFile in
           if fs_pathExists srcPath w
           then seqM [fs_ensureDir env (butlast destPath), fs_copy env srcPath destPath] w
           else returnM () w),
         forM [(modsPath preserved, tempPath @ [''mods'']),
               (universePath preserved, tempPath @ [''universe'']),
               (logsPath preserved, tempPath @ [''logs''])] (copyIfExists env)])
        (returnM tempPath))"

definition restorePreservedFiles :: "Env \<Rightarrow> path \<Rightarrow> path \<Rightarrow> World \<Rightarrow> unit res \<times> World" where
  "restorePreservedFiles env tempPath srvPath =
     (let serverDir = srvPath @ [''Server''];
          configsDir = tempPath @ [''configs''] in
      seqM
        [(\<lambda>w. if fs_pathExists configsDir w
               then bindM (findFilesRecursive env configsDir) (\<lambda>configFiles.
                      forM configFiles (\<lambda>configFile.
                        let srcPath = configsDir @ configFile;
                            destPath = serverDir @ configFile in
                        seqM [fs_ensureDir env (butlast destPath), fs_copy env srcPath destPath])) w
               else returnM () w),
         forM [(tempPath @ [''mods''], serverDir @ [''mods'']),
               (tempPath @ [''universe''], serverDir @ [''universe'']),
               (tempPath @ [''logs''], serverDir @ [''logs''])] (copyIfExists env),
         fs_remove env tempPath])"

section \<open>The persistence store\<close>

text \<open>
  \<open>findUnique\<close> returns the record or \<open>null\<close>; \<open>update\<close> of a record that does not
  exist throws.
\<close>

definition server_update :: "string \<Rightarrow> (Server \<Rightarrow> Server) \<Rightarrow> World \<Rightarrow> unit res \<times> World" where
  "server_update sid f w =
     (case servers w sid of
        None \<Rightarrow> (Throw (Err ''Record to update not found.'' (Some ''P2025'')), w)
      | Some sv \<Rightarrow> (Ok (), w\<lparr>servers := (servers w)(sid \<mapsto> f sv)\<rparr>))"

definition history_update :: "nat \<Rightarrow> (History \<Rightarrow> History) \<Rightarrow> World \<Rightarrow> unit res \<times> World" where
  "history_update hid f w =
     (if hid < length (historyTable w)
      then (Ok (), w\<lparr>historyTable := (historyTable w)[hid := f (historyTable w ! hid)]\<rparr>)
      else (Throw (Err ''Record to update not found.'' (Some ''P2025'')), w))"

definition history_create :: "History \<Rightarrow> World \<Rightarrow> nat res \<times> World" where
  "history_create h w = (Ok (length (historyTable w)), w\<lparr>historyTable := historyTable w @ [h]\<rparr>)"

text \<open>
  \<open>findFirst\<close> with \<open>where: {serverId, backupId}\<close> and \<open>orderBy: {startedAt: 'desc'}\<close>:
  among the matching records one with the greatest \<open>startedAt\<close>, the earliest in the table
  among equals.
\<close>

fun latestMatch :: "(History \<Rightarrow> bool) \<Rightarrow> History list \<Rightarrow> nat \<Rightarrow> (nat \<times> History) option \<Rightarrow> (nat \<times> History) option" where
  "latestMatch P [] i best = best"
| "latestMatch P (h # hs) i best =
     latestMatch P hs (Suc i)
       (if P h \<and> (case best of None \<Rightarrow> True | Some (j, b) \<Rightarrow> h_startedAt b < h_startedAt h)
        then Some (i, h) else best)"

definition history_findFirst :: "string \<Rightarrow> string \<Rightarrow> World \<Rightarrow> (nat \<times> History) option" where
  "history_findFirst sid bid w =
     latestMatch (\<lambda>h. h_serverId h = sid \<and> h_backupId h = Some bid) (historyTable w) 0 None"

section \<open>Sessions\<close>

definition setSession :: "nat \<Rightarrow> (UpdateSession \<Rightarrow> UpdateSession) \<Rightarrow> World \<Rightarrow> unit res \<times> World" where
  "setSession ref f = modifyM (\<lambda>w. w\<lparr>heap := (heap w)(ref := f (heap w ref))\<rparr>)"

text \<open>\<open>this.sessions.set(session.sessionId, session)\<close>\<close>

definition sessions_set :: "nat \<Rightarrow> World \<Rightarrow> unit res \<times> World" where
  "sessions_set ref = modifyM (\<lambda>w. w\<lparr>sessions := (sessions w)(sessionId (heap w ref) \<mapsto> ref)\<rparr>)"

definition updateSessionStatus :: "nat \<Rightarrow> UpdateStatus \<Rightarrow> int \<Rightarrow> string \<Rightarrow> World \<Rightarrow> unit res \<times> World" where
  "updateSessionStatus ref st prog msg =
     seqM
       [setSession ref (\<lambda>s. s\<lparr>status := st, progress := prog, message := Some (Text msg)\<rparr>),
        sessions_set ref,
        (\<lambda>w. emit (UpdateProgress (sessionId (heap w ref)) (serverId (heap w ref)) st prog (Some (Text msg))) w)]"

text \<open>\<open>error: error || null\<close>\<close>

definition updateHistoryStatus :: "nat \<Rightarrow> UpdateStatus \<Rightarrow> string option \<Rightarrow> World \<Rightarrow> unit res \<times> World" where
  "updateHistoryStatus historyId st err =
     history_update historyId (\<lambda>h. h\<lparr>h_status := st, h_error := (if truthy err then err else None)\<rparr>)"

section \<open>The collaborators\<close>

definition stopServer :: "Env \<Rightarrow> string \<Rightarrow> World \<Rightarrow> unit res \<times> World" where
  "stopServer env sid =
     thenM (logCall (StopServer sid))
       (case stopServerOut env of Some e \<Rightarrow> throwM e | None \<Rightarrow> returnM ())"

definition startServer :: "Env \<Rightarrow> string \<Rightarrow> World \<Rightarrow> unit res \<times> World" where
  "startServer env sid =
     thenM (logCall (StartServer sid))
       (case startServerOut env of Some e \<Rightarrow> throwM e | None \<Rightarrow> returnM ())"

definition createBackup :: "Env \<Rightarrow> string \<Rightarrow> string \<Rightarrow> World \<Rightarrow> string res \<times> World" where
  "createBackup env sid label =
     thenM (logCall (CreateBackup sid label))
       (case createBackupOut env of Inl e \<Rightarrow> throwM e | Inr bid \<Rightarrow> returnM bid)"

definition restoreBackup :: "Env \<Rightarrow> string \<Rightarrow> World \<Rightarrow> unit res \<times> World" where
  "restoreBackup env bid =
     thenM (logCall (RestoreBackup bid))
       (case restoreBackupOut env of Some e \<Rightarrow> throwM e | None \<Rightarrow> returnM ())"

text \<open>
  Modelled from the spec: \<open>DiscordNotificationService.notify\<close> is not among the sources;
  the notification sink is fire-and-forget and its failures never abort the caller, so
  the call is recorded and returns.
\<close>

definition notify :: "string \<Rightarrow> string \<Rightarrow> World \<Rightarrow> unit res \<times> World" where
  "notify kind serverName = logCall (Notify kind serverName)"

text \<open>\<open>getGameVersion\<close> throws, or returns the version (\<open>None\<close> when it has nothing).\<close>

definition getGameVersion :: "Env \<Rightarrow> World \<Rightarrow> string option res \<times> World" where
  "getGameVersion env =
     thenM (logCall GetGameVersion)
       (case getGameVersionOut env of Inl e \<Rightarrow> throwM e | Inr v \<Rightarrow> returnM v)"

text \<open>
  \<open>startDownload\<close> returns the provider's session; the files it lays down are on the disk
  by the time the wait is over, and are put there at once.
\<close>

definition startDownload :: "Env \<Rightarrow> path \<Rightarrow> World \<Rightarrow> string res \<times> World" where
  "startDownload env destinationPath =
     thenM (logCall (StartDownload destinationPath))
       (case startDownloadOut env of
          Inl e \<Rightarrow> throwM e
        | Inr dl \<Rightarrow> thenM (modifyM (\<lambda>w. w\<lparr>disk := laidDown env (disk w)\<rparr>)) (returnM dl))"

definition cancelDownload :: "string \<Rightarrow> World \<Rightarrow> unit res \<times> World" where
  "cancelDownload dl = logCall (CancelDownload dl)"

section \<open>Cancelling an update\<close>

definition cancelUpdate :: "Env \<Rightarrow> string \<Rightarrow> World \<Rightarrow> unit res \<times> World" where
  "cancelUpdate env sessId w =
     (case sessions w sessId of
        None \<Rightarrow> (Throw (Error ''Update session not found''), w)
      | Some ref \<Rightarrow>
          if status (heap w ref) = completed \<or> status (heap w ref) = failed
          then (Throw (Error ''Cannot cancel a completed or failed update''), w)
          else seqM
            [(\<lambda>w. case downloadSessionId (heap w ref) of
                     Some dl \<Rightarrow> whenM (dl \<noteq> []) (cancelDownload dl) w
                   | None \<Rightarrow> returnM () w),
             (\<lambda>w. case tempPreservePath (heap w ref) of
                     Some t \<Rightarrow>
                       whenM (t \<noteq> [] \<and> fs_pathExists t w)
                         (tryCatch (fs_remove env t) (\<lambda>err. returnM ())) w
                   | None \<Rightarrow> returnM () w),
             setSession ref (\<lambda>s. s\<lparr>status := failed, error := Some ''Update cancelled by user''\<rparr>),
             modifyM (\<lambda>w. w\<lparr>sessions := (sessions w)(sessId \<mapsto> ref)\<rparr>),
             (\<lambda>w. server_update (serverId (heap w ref)) (\<lambda>sv. sv\<lparr>updateInProgress := False\<rparr>) w),
             (\<lambda>w. emit (UpdateCancelled sessId (serverId (heap w ref))) w)] w)"

section \<open>Waiting for the download\<close>

text \<open>\<open>a || b\<close> on an optional string.\<close>

definition orDefault :: "string option \<Rightarrow> string \<Rightarrow> string" where
  "orDefault x d = (case x of None \<Rightarrow> d | Some v \<Rightarrow> if v = [] then d else v)"

definition Math_round :: "real \<Rightarrow> int" where
  "Math_round x = \<lfloor>x + 1 / 2\<rfloor>"

definition sessionFailed :: "nat \<Rightarrow> World \<Rightarrow> bool" where
  "sessionFailed ref w =
     (case sessions w (sessionId (heap w ref)) of
        None \<Rightarrow> False
      | Some cur \<Rightarrow> status (heap w cur) = failed)"

text \<open>
  The callback of the interval at tick \<open>k\<close>, then the next tick; the timer of thirty
  minutes rejects once \<open>ticksBeforeTimeout\<close> ticks have run.
\<close>

function waitLoop :: "Env \<Rightarrow> nat \<Rightarrow> nat \<Rightarrow> World \<Rightarrow> unit res \<times> World" where
  "waitLoop env ref k w =
     (if ticksBeforeTimeout env < k then (Throw (Error ''Download timed out''), w)
      else
        let w1 = (if cancelAt env k then snd (cancelUpdate env (sessionId (heap w ref)) w) else w) in
        if sessionFailed ref w1 then (Throw (Error ''Update cancelled''), w1)
        else
          (case poll env k of
             None \<Rightarrow> (Throw (Error ''Download session not found''), w1)
           | Some downloadSession \<Rightarrow>
               let downloadProgress = d_progress downloadSession;
                   overallProgress = ieee env (45 + ieee env (downloadProgress * 0.25));
                   w2 = snd (seqM
                     [setSession ref (\<lambda>s. s\<lparr>progress := Math_round overallProgress,
                                            message := Some (DownloadingPercent downloadProgress)\<rparr>),
                      sessions_set ref,
                      (\<lambda>w. emit (UpdateProgress (sessionId (heap w ref)) (serverId (heap w ref))
                                   (status (heap w ref)) (progress (heap w ref)) (message (heap w ref))) w)] w1)
               in
               if d_status downloadSession = ''complete'' then (Ok (), w2)
               else if d_status downloadSession = ''failed''
               then (Throw (Error (orDefault (d_error downloadSession) ''Download failed'')), w2)
               else waitLoop env ref (Suc k) w2))"
  by pat_completeness auto
termination
  by (relation "measure (\<lambda>(env, ref, k, w). Suc (ticksBeforeTimeout env) - k)") auto

declare waitLoop.simps [simp del]

definition waitForDownload :: "Env \<Rightarrow> string \<Rightarrow> nat \<Rightarrow> World \<Rightarrow> unit res \<times> World" where
  "waitForDownload env downloadSessId ref = waitLoop env ref 1"

section \<open>The update pipeline\<close>

text \<open>
  The \<open>try\<close> block, in three parts after the local variable \<open>tempPreservePath\<close>: it is
  \<open>null\<close> until \<open>preserveFiles\<close> has returned, holds the path until the files are
  restored, and is \<open>null\<close> again from there on.
\<close>

definition untilPreserved :: "Env \<Rightarrow> Server \<Rightarrow> nat \<Rightarrow> nat \<Rightarrow> World \<Rightarrow> path res \<times> World" where
  "untilPreserved env server ref historyId =
     thenM (seqM
       [(\<lambda>w. whenM (wasRunning (heap w ref))
          (seqM
            [updateSessionStatus ref stopping 5 ''Stopping server...'',
             updateHistoryStatus historyId stopping None,
             whenM (hasServerService env)
               (seqM [(\<lambda>w. stopServer env (serverId (heap w ref)) w), sleep 2000])]) w),
        updateSessionStatus ref backing_up 15 ''Creating backup...'',
        updateHistoryStatus historyId backing_up None,
        whenM (hasBackupService env)
          (bindM (\<lambda>w. createBackup env (serverId (heap w ref))
                    (''Pre-update backup ('' @ fromVersion (heap w ref) @ '' -> ''
                       @ toVersion (heap w ref) @ '')'') w)
             (\<lambda>backup. seqM
               [setSession ref (\<lambda>s. s\<lparr>backupId := Some backup\<rparr>),
                (\<lambda>w. server_update (serverId (heap w ref)) (\<lambda>sv. sv\<lparr>preUpdateBackupId := Some backup\<rparr>) w),
                history_update historyId (\<lambda>h. h\<lparr>h_backupId := Some backup\<rparr>)])),
        updateSessionStatus ref preserving 30 ''Preserving user files...'',
        updateHistoryStatus historyId preserving None])
       (bindM (identifyPreservedPaths env (serverPath server))
          (\<lambda>preserved. preserveFiles env (serverPath server) preserved))"

definition untilRestored :: "Env \<Rightarrow> Server \<Rightarrow> nat \<Rightarrow> nat \<Rightarrow> path \<Rightarrow> World \<Rightarrow> unit res \<times> World" where
  "untilRestored env server ref historyId tempPath =
     (let serverDir = serverPath server @ [''Server''] in
      seqM
       [setSession ref (\<lambda>s. s\<lparr>tempPreservePath := Some tempPath\<rparr>),
        sessions_set ref,
        updateSessionStatus ref downloading 45 ''Downloading new version...'',
        updateHistoryStatus historyId downloading None,
        (\<lambda>w. whenM (fs_pathExists serverDir w)
          (bindM (fs_readdir env serverDir)
             (\<lambda>items. forM items (\<lambda>item. removeWithRetry env (serverDir @ [item]) 5 1000))) w),
        bindM (startDownload env (serverPath server))
          (\<lambda>downloadSess. seqM
            [setSession ref (\<lambda>s. s\<lparr>downloadSessionId := Some downloadSess\<rparr>),
             sessions_set ref,
             waitForDownload env downloadSess ref]),
        updateSessionStatus ref installing 70 ''Installing new version...'',
        updateHistoryStatus historyId installing None,
        (\<lambda>w. if fs_pathExists (serverDir @ [''HytaleServer.jar'']) w then returnM () w
              else throwM (Error ''Server files not properly installed - HytaleServer.jar not found'') w),
        updateSessionStatus ref restoring 80 ''Restoring user files...'',
        updateHistoryStatus historyId restoring None,
        whenM (tempPath \<noteq> []) (restorePreservedFiles env tempPath (serverPath server))])"

definition afterRestored :: "Env \<Rightarrow> Server \<Rightarrow> nat \<Rightarrow> nat \<Rightarrow> World \<Rightarrow> unit res \<times> World" where
  "afterRestored env server ref historyId =
     seqM
       [(\<lambda>w. server_update (serverId (heap w ref))
                (\<lambda>sv. sv\<lparr>version := toVersion (heap w ref), updateInProgress := False,
                         availableVersion := None\<rparr>) w),
        (\<lambda>w. whenM (wasRunning (heap w ref))
          (seqM
            [updateSessionStatus ref starting 90 ''Starting server...'',
             updateHistoryStatus historyId starting None,
             whenM (hasServerService env) (\<lambda>w. startServer env (serverId (heap w ref)) w)]) w),
        updateSessionStatus ref completed 100 ''Update completed successfully'',
        updateHistoryStatus historyId completed None,
        history_update historyId (\<lambda>h. h\<lparr>h_completedAt := Some (dateNow env)\<rparr>),
        (\<lambda>w. emit (UpdateCompleted (sessionId (heap w ref)) (serverId (heap w ref))
                     (fromVersion (heap w ref)) (toVersion (heap w ref))) w),
        whenM (hasDiscordService env) (notify ''server_update_completed'' (name server))]"

text \<open>The \<open>catch\<close> block, with the value of \<open>tempPreservePath\<close> at the throw.\<close>

definition failureHandler :: "Env \<Rightarrow> Server \<Rightarrow> nat \<Rightarrow> nat \<Rightarrow> path option \<Rightarrow> Err \<Rightarrow> World \<Rightarrow> unit res \<times> World" where
  "failureHandler env server ref historyId tempPreserve err =
     seqM
       [(case tempPreserve of
           Some t \<Rightarrow> whenM (t \<noteq> []) (tryCatch (fs_remove env t) (\<lambda>cleanupError. returnM ()))
         | None \<Rightarrow> returnM ()),
        setSession ref (\<lambda>s. s\<lparr>status := failed, error := Some (err_message err)\<rparr>),
        sessions_set ref,
        updateHistoryStatus historyId failed (Some (err_message err)),
        (\<lambda>w. server_update (serverId (heap w ref)) (\<lambda>sv. sv\<lparr>updateInProgress := False\<rparr>) w),
        (\<lambda>w. emit (UpdateFailed (sessionId (heap w ref)) (serverId (heap w ref)) (err_message err)) w),
        whenM (hasDiscordService env) (notify ''server_update_failed'' (name server))]"

text \<open>
  The \<open>try\<close> block as a whole: its outcome, and the value of \<open>tempPreservePath\<close> when
  it is left.
\<close>

definition tryBlock :: "Env \<Rightarrow> Server \<Rightarrow> nat \<Rightarrow> nat \<Rightarrow> World \<Rightarrow> (unit res \<times> path option) \<times> World" where
  "tryBlock env server ref historyId w =
     (case untilPreserved env server ref historyId w of
        (Throw e, w1) \<Rightarrow> ((Throw e, None), w1)
      | (Ok tempPath, w1) \<Rightarrow>
          (case untilRestored env server ref historyId tempPath w1 of
             (Throw e, w2) \<Rightarrow> ((Throw e, Some tempPath), w2)
           | (Ok u, w2) \<Rightarrow>
               (case afterRestored env server ref historyId w2 of
                  (r, w3) \<Rightarrow> ((r, None), w3))))"

definition executeUpdatePipeline :: "Env \<Rightarrow> nat \<Rightarrow> nat \<Rightarrow> World \<Rightarrow> unit res \<times> World" where
  "executeUpdatePipeline env ref historyId w =
     (case servers w (serverId (heap w ref)) of
        None \<Rightarrow> (Throw (Error ''Server not found''), w)
      | Some server \<Rightarrow>
          (case tryBlock env server ref historyId w of
             ((Ok u, tempPreserve), w1) \<Rightarrow> (Ok (), w1)
           | ((Throw e, tempPreserve), w1) \<Rightarrow>
               failureHandler env server ref historyId tempPreserve e w1))"

section \<open>Starting an update\<close>

text \<open>
  The target version: the argument when it is truthy, the provider's latest version
  otherwise; the \<open>catch\<close> around the query wraps also the error thrown inside the \<open>try\<close>.
\<close>

definition queryLatest :: "Env \<Rightarrow> World \<Rightarrow> string res \<times> World" where
  "queryLatest env =
     tryCatch
       (bindM (getGameVersion env) (\<lambda>latestVersion.
          if truthy latestVersion then returnM (orDefault latestVersion [])
          else throwM (Error ''Could not determine latest version. Please ensure the Hytale downloader is authenticated.'')))
       (\<lambda>err. throwM (Error (''Could not determine latest version: '' @ err_message err)))"

definition resolveTarget :: "Env \<Rightarrow> string option \<Rightarrow> World \<Rightarrow> string res \<times> World" where
  "resolveTarget env targetVersion =
     (case targetVersion of
        None \<Rightarrow> queryLatest env
      | Some v \<Rightarrow> if v = [] then queryLatest env else returnM v)"

text \<open>
  \<open>startUpdate\<close> returns the session; the model returns the reference to it and the id of
  the history record, the two arguments of the pipeline it launches without awaiting.
\<close>

definition startUpdate :: "Env \<Rightarrow> string \<Rightarrow> string option \<Rightarrow> World \<Rightarrow> (nat \<times> nat) res \<times> World" where
  "startUpdate env servId targetVersion w =
     (case servers w servId of
        None \<Rightarrow> (Throw (Error (''Server '' @ servId @ '' not found'')), w)
      | Some server \<Rightarrow>
          if updateInProgress server
          then (Throw (Error (''Server '' @ name server @ '' is already being updated'')), w)
          else bindM (resolveTarget env targetVersion) (\<lambda>toVer.
            if toVer = version server
            then throwM (Error (''Server is already at version '' @ toVer))
            else (\<lambda>w.
              let sessId = ''update-'' @ decimal (dateNow env) @ ''-'' @ randomSuffix env;
                  session = \<lparr>sessionId = sessId, serverId = servId, fromVersion = version server,
                             toVersion = toVer, status = pending, progress = 0, message = None,
                             error = None, backupId = None, startedAt = dateNow env,
                             wasRunning = (serverStatus server = ''running''),
                             downloadSessionId = None, tempPreservePath = None\<rparr>;
                  ref = nextRef w
              in bindM (seqM
                   [modifyM (\<lambda>w. w\<lparr>heap := (heap w)(ref := session), nextRef := Suc ref\<rparr>),
                    sessions_set ref,
                    server_update servId (\<lambda>sv. sv\<lparr>updateInProgress := True\<rparr>)])
                   (\<lambda>u. bindM (history_create
                            \<lparr>h_serverId = servId, h_fromVersion = version server, h_toVersion = toVer,
                             h_status = pending, h_error = None, h_backupId = None,
                             h_startedAt = dateNow env, h_completedAt = None\<rparr>)
                      (\<lambda>updateHistoryId. thenM (seqM
                         [emit (UpdateStarted sessId servId (name server) (version server) toVer),
                          whenM (hasDiscordService env) (notify ''server_update_started'' (name server))])
                         (returnM (ref, updateHistoryId)))) w)) w)"

section \<open>Rolling back\<close>

definition rollback :: "Env \<Rightarrow> string \<Rightarrow> World \<Rightarrow> unit res \<times> World" where
  "rollback env servId w =
     (case servers w servId of
        None \<Rightarrow> (Throw (Error (''Server '' @ servId @ '' not found'')), w)
      | Some server \<Rightarrow>
          if \<not> truthy (preUpdateBackupId server)
          then (Throw (Error ''No pre-update backup available for rollback''), w)
          else
            let wasRunning = (serverStatus server = ''running'');
                bid = orDefault (preUpdateBackupId server) []
            in seqM
              [whenM (wasRunning \<and> hasServerService env) (seqM [stopServer env servId, sleep 2000]),
               whenM (hasBackupService env) (restoreBackup env bid),
               (\<lambda>w. case history_findFirst servId bid w of
                       None \<Rightarrow> returnM () w
                     | Some (hid, updateHistory) \<Rightarrow>
                         seqM
                           [server_update servId
                              (\<lambda>sv. sv\<lparr>version := h_fromVersion updateHistory, preUpdateBackupId := None\<rparr>),
                            history_update hid (\<lambda>h. h\<lparr>h_status := rolled_back\<rparr>)] w),
               whenM (wasRunning \<and> hasServerService env) (startServer env servId),
               emit (RollbackCompleted servId)] w)"

section \<open>Auxiliary notions\<close>

text \<open>The steps of rollback before the lookup change the call log only.\<close>

definition onlyCalls :: "World \<Rightarrow> World \<Rightarrow> bool" where
  "onlyCalls w w' = (servers w' = servers w \<and> historyTable w' = historyTable w \<and> heap w' = heap w
     \<and> nextRef w' = nextRef w \<and> sessions w' = sessions w \<and> disk w' = disk w
     \<and> events w' = events w \<and> fsClock w' = fsClock w)"

text \<open>The progress values of the \<open>update:progress\<close> events, in the order of emission.\<close>

fun progressValues :: "Event list \<Rightarrow> int list" where
  "progressValues [] = []"
| "progressValues (UpdateProgress sess srv st p m # evs) = p # progressValues evs"
| "progressValues (ev # evs) = progressValues evs"

text \<open>
  A tick of the download wait settles the promise when the session was cancelled, the
  provider's session is gone, or the provider reports \<open>complete\<close> or \<open>failed\<close>; and then
  this is how.
\<close>

definition settles :: "Env \<Rightarrow> nat \<Rightarrow> bool" where
  "settles env k =
     (cancelAt env k \<or>
      (case poll env k of
         None \<Rightarrow> True
       | Some ds \<Rightarrow> d_status ds = ''complete'' \<or> d_status ds = ''failed''))"

definition settlement :: "Env \<Rightarrow> nat \<Rightarrow> unit res" where
  "settlement env k =
     (if cancelAt env k then Throw (Error ''Update cancelled'')
      else case poll env k of
             None \<Rightarrow> Throw (Error ''Download session not found'')
           | Some ds \<Rightarrow>
               if d_status ds = ''complete'' then Ok ()
               else Throw (Error (orDefault (d_error ds) ''Download failed'')))"

text \<open>The session is in the session map under its id and is neither failed nor completed.\<close>

definition registered :: "nat \<Rightarrow> World \<Rightarrow> bool" where
  "registered ref w =
     (sessions w (sessionId (heap w ref)) = Some ref
      \<and> status (heap w ref) \<noteq> failed \<and> status (heap w ref) \<noteq> completed)"

subsection \<open>What a computation may change\<close>

text \<open>
  \<open>rel R m\<close>: whatever \<open>m\<close> returns or throws, the state it leaves is related by \<open>R\<close> to
  the one it started in.
\<close>

definition rel :: "('s \<Rightarrow> 's \<Rightarrow> bool) \<Rightarrow> ('s \<Rightarrow> 'a res \<times> 's) \<Rightarrow> bool" where
  "rel R m = (\<forall>s r s'. m s = (r, s') \<longrightarrow> R s s')"

definition isPreorder :: "('s \<Rightarrow> 's \<Rightarrow> bool) \<Rightarrow> bool" where
  "isPreorder R = ((\<forall>s. R s s) \<and> (\<forall>a b c. R a b \<longrightarrow> R b c \<longrightarrow> R a c))"

text \<open>A relation that the operations of the file system and the waits respect.\<close>

definition fsClosed :: "(World \<Rightarrow> World \<Rightarrow> bool) \<Rightarrow> bool" where
  "fsClosed R =
     (isPreorder R
      \<and> (\<forall>w d. R w (w\<lparr>disk := d\<rparr>))
      \<and> (\<forall>w n. R w (w\<lparr>fsClock := n\<rparr>))
      \<and> (\<forall>w p. R w (w\<lparr>calls := calls w @ [FsRemove p]\<rparr>))
      \<and> (\<forall>w n. R w (w\<lparr>calls := calls w @ [Sleep n]\<rparr>)))"

definition isProcessCall :: "Call \<Rightarrow> bool" where
  "isProcessCall c = (case c of StopServer s \<Rightarrow> True | StartServer s \<Rightarrow> True | _ \<Rightarrow> False)"

definition isRestartStatus :: "UpdateStatus \<Rightarrow> bool" where
  "isRestartStatus st = (st = stopping \<or> st = starting)"

definition isRestartEvent :: "Event \<Rightarrow> bool" where
  "isRestartEvent ev = (case ev of UpdateProgress sess srv st p m \<Rightarrow> isRestartStatus st | _ \<Rightarrow> False)"

text \<open>
  What every step of the pipeline keeps: the server records that exist, the history
  records, the identity of the session, and the calls and events already made.
\<close>

definition frameRel :: "nat \<Rightarrow> World \<Rightarrow> World \<Rightarrow> bool" where
  "frameRel ref w w' =
     ((\<forall>s. servers w s \<noteq> None \<longrightarrow> servers w' s \<noteq> None)
      \<and> length (historyTable w') = length (historyTable w)
      \<and> sessionId (heap w' ref) = sessionId (heap w ref)
      \<and> serverId (heap w' ref) = serverId (heap w ref)
      \<and> wasRunning (heap w' ref) = wasRunning (heap w ref)
      \<and> prefix (calls w) (calls w')
      \<and> prefix (events w) (events w'))"

text \<open>
  For a session that was not running and is in neither of the states \<open>stopping\<close> and
  \<open>starting\<close>: no call to the process controller is added, no progress event of these
  states, and neither the session nor the history record enters them.
\<close>

definition idleRel :: "nat \<Rightarrow> nat \<Rightarrow> World \<Rightarrow> World \<Rightarrow> bool" where
  "idleRel ref hid w w' =
     (\<not> wasRunning (heap w ref) \<and> \<not> isRestartStatus (status (heap w ref)) \<longrightarrow>
        (\<forall>c \<in> set (drop (length (calls w)) (calls w')). \<not> isProcessCall c)
      \<and> (\<forall>ev \<in> set (drop (length (events w)) (events w')). \<not> isRestartEvent ev)
      \<and> \<not> isRestartStatus (status (heap w' ref))
      \<and> (hid < length (historyTable w) \<and> \<not> isRestartStatus (h_status (historyTable w ! hid))
            \<longrightarrow> \<not> isRestartStatus (h_status (historyTable w' ! hid))))"

definition pipeRel :: "nat \<Rightarrow> nat \<Rightarrow> World \<Rightarrow> World \<Rightarrow> bool" where
  "pipeRel ref hid w w' = (frameRel ref w w' \<and> idleRel ref hid w w')"

subsection \<open>Progress\<close>

text \<open>
  \<open>progInv ref n p0 c\<close>: the progress values emitted since the event log had length \<open>n\<close>,
  after the progress \<open>p0\<close> the session had then, are non-decreasing; the last of them is
  the progress of the session now; and it is at most \<open>c\<close>.
\<close>

definition progInv :: "nat \<Rightarrow> nat \<Rightarrow> int \<Rightarrow> int \<Rightarrow> World \<Rightarrow> bool" where
  "progInv ref n p0 c w =
     (n \<le> length (events w)
      \<and> sorted (p0 # progressValues (drop n (events w)))
      \<and> progress (heap w ref) = last (p0 # progressValues (drop n (events w)))
      \<and> progress (heap w ref) \<le> c)"

text \<open>
  \<open>stage ref n p0 c m c'\<close>: started with the progress at most \<open>c\<close>, \<open>m\<close> leaves it at most
  \<open>c'\<close> when it returns and at most 100 when it throws, the emitted values staying
  ordered.
\<close>

definition stage :: "nat \<Rightarrow> nat \<Rightarrow> int \<Rightarrow> int \<Rightarrow> (World \<Rightarrow> 'a res \<times> World) \<Rightarrow> int \<Rightarrow> bool" where
  "stage ref n p0 c m c' =
     (\<forall>s r s'. progInv ref n p0 c s \<longrightarrow> m s = (r, s') \<longrightarrow>
        (case r of Ok x \<Rightarrow> progInv ref n p0 c' s' | Throw e \<Rightarrow> progInv ref n p0 100 s'))"

text \<open>A step that emits no progress and leaves the session's progress alone.\<close>

definition quietRel :: "nat \<Rightarrow> World \<Rightarrow> World \<Rightarrow> bool" where
  "quietRel ref w w' =
     (prefix (events w) (events w')
      \<and> progressValues (drop (length (events w)) (events w')) = []
      \<and> progress (heap w' ref) = progress (heap w ref))"

text \<open>
  Rounding to a Number never inverts an order and leaves the integers up to \<open>2^53\<close> as
  they are, as the rounding of the IEEE 754 doubles does.
\<close>

definition roundsToNumber :: "(real \<Rightarrow> real) \<Rightarrow> bool" where
  "roundsToNumber f =
     ((\<forall>x y. x \<le> y \<longrightarrow> f x \<le> f y)
      \<and> (\<forall>n::int. \<bar>n\<bar> \<le> 2 ^ 53 \<longrightarrow> f (real_of_int n) = real_of_int n))"

text \<open>
  The provider's percentage stays within 0 and 100 and never decreases from one tick of
  the wait to a later one.
\<close>

definition providerMonotone :: "Env \<Rightarrow> bool" where
  "providerMonotone env =
     ((\<forall>k ds. poll env k = Some ds \<longrightarrow> 0 \<le> d_progress ds \<and> d_progress ds \<le> 100)
      \<and> (\<forall>i j ds ds'. i \<le> j \<and> poll env i = Some ds \<and> poll env j = Some ds'
            \<longrightarrow> d_progress ds \<le> d_progress ds'))"

subsection \<open>The statuses of sessions\<close>


text \<open>
  The sessions of the service: every entry of the session map refers to a session that
  \<open>startUpdate\<close> has created, and none of the sessions created has the status
  \<open>rolled_back\<close>, which the service writes to history records only.  \<open>soundRel ref\<close> relates
  two states when no session is lost and, the session \<open>ref\<close> being one of the sessions
  created, the second state is sound if the first is.
\<close>

definition sessionsSound :: "World \<Rightarrow> bool" where
  "sessionsSound w =
     ((\<forall>sid ref. sessions w sid = Some ref \<longrightarrow> ref < nextRef w)
      \<and> (\<forall>ref. ref < nextRef w \<longrightarrow> status (heap w ref) \<noteq> rolled_back))"

definition soundRel :: "nat \<Rightarrow> World \<Rightarrow> World \<Rightarrow> bool" where
  "soundRel ref w w' =
     (nextRef w \<le> nextRef w' \<and> (sessionsSound w \<and> ref < nextRef w \<longrightarrow> sessionsSound w'))"

text \<open>A step that leaves the sessions alone.\<close>

definition keepsSessions :: "World \<Rightarrow> World \<Rightarrow> bool" where
  "keepsSessions w w' = (heap w' = heap w \<and> sessions w' = sessions w \<and> nextRef w' = nextRef w)"

section \<open>Concrete scenarios\<close>

definition quietEnv :: Env where
  "quietEnv = \<lparr>fsFault = (\<lambda>n. None), dateNow = 1700000000000, randomSuffix = ''k3j9x0a1b'',
     hasServerService = True, hasBackupService = True, hasDiscordService = True,
     stopServerOut = None, startServerOut = None, createBackupOut = Inr ''backup-1'',
     restoreBackupOut = None, getGameVersionOut = Inr (Some ''1.1''),
     startDownloadOut = Inr ''dl-1'', laidDown = (\<lambda>d. d),
     poll = (\<lambda>k. Some \<lparr>d_progress = 100, d_status = ''complete'', d_error = None\<rparr>),
     ticksBeforeTimeout = 1799, cancelAt = (\<lambda>k. False), ieee = (\<lambda>x. x)\<rparr>"

definition blankSession :: UpdateSession where
  "blankSession = \<lparr>sessionId = [], serverId = [], fromVersion = [], toVersion = [],
     status = pending, progress = 0, message = None, error = None, backupId = None,
     startedAt = 0, wasRunning = False, downloadSessionId = None, tempPreservePath = None\<rparr>"

definition emptyWorld :: World where
  "emptyWorld = \<lparr>servers = Map.empty, historyTable = [], heap = (\<lambda>r. blankSession), nextRef = 0,
     sessions = Map.empty, disk = Dir [], events = [], calls = [], fsClock = 0\<rparr>"

definition busyTwiceEnv :: Env where
  "busyTwiceEnv = quietEnv\<lparr>fsFault := (\<lambda>n. if n < 2 then Some (Err ''EBUSY: resource busy or locked'' (Some ''EBUSY'')) else None)\<rparr>"


text \<open>
  A server \<open>s1\<close> at version 1.0, stopped, installed under \<open>/srv\<close> with one configuration
  file and one mod.
\<close>

definition demoServer :: Server where
  "demoServer = \<lparr>name = ''Orbis'', version = ''1.0'', serverStatus = ''stopped'', serverPath = [''srv''],
     updateInProgress = False, preUpdateBackupId = None, availableVersion = None\<rparr>"

definition demoDisk :: node where
  "demoDisk = Dir [(''srv'', Dir [(''Server'',
       Dir [(''HytaleServer.jar'', File ''jar-1.0''),
            (''config.json'', File ''{motd}''),
            (''mods'', Dir [(''a.jar'', File ''mod-a'')])])])]"

definition demoWorld :: World where
  "demoWorld = emptyWorld\<lparr>servers := [''s1'' \<mapsto> demoServer], disk := demoDisk\<rparr>"

definition offlineEnv :: Env where
  "offlineEnv = quietEnv\<lparr>getGameVersionOut := Inl (Error ''not authenticated'')\<rparr>"

definition busyWorld :: World where
  "busyWorld = demoWorld\<lparr>servers := [''s1'' \<mapsto> demoServer\<lparr>updateInProgress := True\<rparr>]\<rparr>"

definition currentEnv :: Env where
  "currentEnv = quietEnv\<lparr>getGameVersionOut := Inr (Some ''1.0'')\<rparr>"

text \<open>
  A session \<open>u1\<close> of \<open>s1\<close> in the middle of its download, with its preserved files under
  \<open>/srv/.update-preserve-1\<close>; the same session once completed; and a file system on
  which every operation is refused.
\<close>

definition midSession :: UpdateSession where
  "midSession = blankSession\<lparr>sessionId := ''u1'', serverId := ''s1'', fromVersion := ''1.0'',
     toVersion := ''1.1'', status := downloading, progress := 45,
     downloadSessionId := Some ''dl-1'', tempPreservePath := Some [''srv'', ''.update-preserve-1'']\<rparr>"

definition midWorld :: World where
  "midWorld = emptyWorld\<lparr>servers := [''s1'' \<mapsto> demoServer\<lparr>updateInProgress := True\<rparr>],
     heap := (\<lambda>r. blankSession)(0 := midSession), nextRef := 1, sessions := [''u1'' \<mapsto> 0],
     disk := Dir [(''srv'', Dir [(''Server'', Dir []),
                                 (''.update-preserve-1'', Dir [(''configs'', Dir [(''config.json'', File ''{motd}'')])])])]\<rparr>"



text \<open>
  The server after an update to 1.1 with the backup \<open>backup-1\<close>, with the history record
  of that update; and the same server whose history holds no record of that backup.
\<close>

definition updatedServer :: Server where
  "updatedServer = demoServer\<lparr>version := ''1.1'', serverStatus := ''running'', preUpdateBackupId := Some ''backup-1''\<rparr>"

definition updatedHistory :: History where
  "updatedHistory = \<lparr>h_serverId = ''s1'', h_fromVersion = ''1.0'', h_toVersion = ''1.1'', h_status = completed,
     h_error = None, h_backupId = Some ''backup-1'', h_startedAt = 10, h_completedAt = Some 20\<rparr>"

definition updatedWorld :: World where
  "updatedWorld = emptyWorld\<lparr>servers := [''s1'' \<mapsto> updatedServer], historyTable := [updatedHistory]\<rparr>"

definition orphanBackupWorld :: World where
  "orphanBackupWorld = emptyWorld\<lparr>servers := [''s1'' \<mapsto> updatedServer]\<rparr>"

text \<open>
  The state in which \<open>startUpdate\<close> leaves \<open>s1\<close> for an update to 1.1: the pending session
  at reference 0, the server flagged, the pending history record 0.  The provider of
  \<open>installEnv\<close> lays down the new jar.
\<close>

definition startedSession :: UpdateSession where
  "startedSession = blankSession\<lparr>sessionId := ''update-1-k3j9x0a1b'', serverId := ''s1'',
     fromVersion := ''1.0'', toVersion := ''1.1''\<rparr>"

definition startedHistory :: History where
  "startedHistory = \<lparr>h_serverId = ''s1'', h_fromVersion = ''1.0'', h_toVersion = ''1.1'', h_status = pending,
     h_error = None, h_backupId = None, h_startedAt = 1, h_completedAt = None\<rparr>"

definition startedWorld :: World where
  "startedWorld = demoWorld\<lparr>servers := [''s1'' \<mapsto> demoServer\<lparr>updateInProgress := True\<rparr>],
     historyTable := [startedHistory], heap := (\<lambda>r. blankSession)(0 := startedSession), nextRef := 1,
     sessions := [''update-1-k3j9x0a1b'' \<mapsto> 0]\<rparr>"

definition newJar :: "node \<Rightarrow> node" where
  "newJar d = (case place [''srv'', ''Server'', ''HytaleServer.jar''] (File ''jar-1.1'') (Some d) of
                 Inl e \<Rightarrow> d | Inr d' \<Rightarrow> d')"

definition installEnv :: Env where
  "installEnv = quietEnv\<lparr>dateNow := 7, laidDown := newJar\<rparr>"

text \<open>
  The same start with the server record gone; a provider whose download fails at 60
  percent; and the state in which the pipeline leaves the update when all goes well.
\<close>

definition lostServerWorld :: World where
  "lostServerWorld = startedWorld\<lparr>servers := Map.empty\<rparr>"

definition diskFullEnv :: Env where
  "diskFullEnv = installEnv\<lparr>poll := (\<lambda>k. Some \<lparr>d_progress = 60, d_status = ''failed'', d_error = Some ''disk full''\<rparr>)\<rparr>"

definition completedWorld :: World where
  "completedWorld = startedWorld\<lparr>
     servers := [''s1'' \<mapsto> demoServer\<lparr>version := ''1.1'', preUpdateBackupId := Some ''backup-1''\<rparr>],
     historyTable := [startedHistory\<lparr>h_status := completed, h_backupId := Some ''backup-1'', h_completedAt := Some 7\<rparr>],
     heap := (\<lambda>r. blankSession)(0 := startedSession\<lparr>status := completed, progress := 100,
        message := Some (Text ''Update completed successfully''), backupId := Some ''backup-1'',
        downloadSessionId := Some ''dl-1'', tempPreservePath := Some [''srv'', ''.update-preserve-7'']\<rparr>),
     disk := Dir [(''srv'', Dir [(''Server'',
        Dir [(''HytaleServer.jar'', File ''jar-1.1''),
             (''config.json'', File ''{motd}''),
             (''mods'', Dir [(''a.jar'', File ''mod-a'')])])])],
     events := [UpdateProgress ''update-1-k3j9x0a1b'' ''s1'' backing_up 15 (Some (Text ''Creating backup...'')),
        UpdateProgress ''update-1-k3j9x0a1b'' ''s1'' preserving 30 (Some (Text ''Preserving user files...'')),
        UpdateProgress ''update-1-k3j9x0a1b'' ''s1'' downloading 45 (Some (Text ''Downloading new version...'')),
        UpdateProgress ''update-1-k3j9x0a1b'' ''s1'' downloading 70 (Some (DownloadingPercent 100)),
        UpdateProgress ''update-1-k3j9x0a1b'' ''s1'' installing 70 (Some (Text ''Installing new version...'')),
        UpdateProgress ''update-1-k3j9x0a1b'' ''s1'' restoring 80 (Some (Text ''Restoring user files...'')),
        UpdateProgress ''update-1-k3j9x0a1b'' ''s1'' completed 100 (Some (Text ''Update completed successfully'')),
        UpdateCompleted ''update-1-k3j9x0a1b'' ''s1'' ''1.0'' ''1.1''],
     calls := [CreateBackup ''s1'' ''Pre-update backup (1.0 -> 1.1)'',
        FsRemove [''srv'', ''Server'', ''HytaleServer.jar''],
        FsRemove [''srv'', ''Server'', ''config.json''],
        FsRemove [''srv'', ''Server'', ''mods''],
        StartDownload [''srv''],
        FsRemove [''srv'', ''.update-preserve-7''],
        Notify ''server_update_completed'' ''Orbis''],
     fsClock := 15\<rparr>"

text \<open>A provider that never finishes, with three ticks before the timer.\<close>

definition stuckEnv :: Env where
  "stuckEnv = installEnv\<lparr>poll := (\<lambda>k. Some \<lparr>d_progress = 10, d_status = ''downloading'', d_error = None\<rparr>),
     ticksBeforeTimeout := 3\<rparr>"


text \<open>
  A disk that is full when \<open>preserveFiles\<close> copies the directory \<open>mods\<close>, the sixth call to the
  file system of the run; and the state in which the pipeline then leaves the update.
\<close>

definition copyFailEnv :: Env where
  "copyFailEnv = installEnv\<lparr>fsFault := (\<lambda>n. if n = 5 then Some (Err ''ENOSPC: no space left on device'' (Some ''ENOSPC'')) else None)\<rparr>"

definition copyFailedWorld :: World where
  "copyFailedWorld = startedWorld\<lparr>
     servers := [''s1'' \<mapsto> demoServer\<lparr>preUpdateBackupId := Some ''backup-1''\<rparr>],
     historyTable := [startedHistory\<lparr>h_status := failed, h_error := Some ''ENOSPC: no space left on device'',
        h_backupId := Some ''backup-1''\<rparr>],
     heap := (\<lambda>r. blankSession)(0 := startedSession\<lparr>status := failed, progress := 30,
        message := Some (Text ''Preserving user files...''), error := Some ''ENOSPC: no space left on device'',
        backupId := Some ''backup-1''\<rparr>),
     disk := Dir [(''srv'', Dir [(''Server'',
          Dir [(''HytaleServer.jar'', File ''jar-1.0''),
               (''config.json'', File ''{motd}''),
               (''mods'', Dir [(''a.jar'', File ''mod-a'')])]),
        (''.update-preserve-7'', Dir [(''configs'', Dir [(''config.json'', File ''{motd}'')])])])],
     events := [UpdateProgress ''update-1-k3j9x0a1b'' ''s1'' backing_up 15 (Some (Text ''Creating backup...'')),
        UpdateProgress ''update-1-k3j9x0a1b'' ''s1'' preserving 30 (Some (Text ''Preserving user files...'')),
        UpdateFailed ''update-1-k3j9x0a1b'' ''s1'' ''ENOSPC: no space left on device''],
     calls := [CreateBackup ''s1'' ''Pre-update backup (1.0 -> 1.1)'',
        Notify ''server_update_failed'' ''Orbis''],
     fsClock := 6\<rparr>"

text \<open>A provider that reports 10, then 50, then 100 percent and completion.\<close>

definition slowEnv :: Env where
  "slowEnv = installEnv\<lparr>poll := (\<lambda>k.
      if k < 2 then Some \<lparr>d_progress = 10, d_status = ''downloading'', d_error = None\<rparr>
      else if k = 2 then Some \<lparr>d_progress = 50, d_status = ''downloading'', d_error = None\<rparr>
      else Some \<lparr>d_progress = 100, d_status = ''complete'', d_error = None\<rparr>)\<rparr>"

section \<open>Basic facts\<close>

lemmas monad_defs = bindM_def thenM_def returnM_def throwM_def tryCatch_def whenM_def modifyM_def


lemma seqM_split2: "seqM (a # b # rest) s = thenM (seqM [a, b]) (seqM rest) s"
  by (simp add: monad_defs split: prod.splits res.splits)

lemma lookup_None [simp]: "lookup None p = None"
  by (cases p) simp_all

lemma lookup_remove_at_self: "p \<noteq> [] \<Longrightarrow> lookup (remove_at p t) p = None"
proof (induction p t rule: remove_at.induct)
  case (4 x xs es)
  show ?case
  proof (cases "remove_at xs (map_of es x)")
    case None
    then show ?thesis by (simp add: AList.delete_conv')
  next
    case (Some c)
    then have "xs \<noteq> []" by (cases xs) auto
    with 4 Some show ?thesis by (simp add: AList.update_conv')
  qed
qed simp_all

lemma remove_at_Some: "p \<noteq> [] \<Longrightarrow> remove_at p (Some d) \<noteq> None"
  by (cases p; cases d) (auto split: option.splits)

lemma fs_remove_gone:
  "p \<noteq> [] \<Longrightarrow> fs_remove env p w = (Ok (), w') \<Longrightarrow> \<not> fs_pathExists p w'"
  using lookup_remove_at_self[of p "Some (disk w)"] remove_at_Some[of p "disk w"]
  by (auto simp add: fs_remove_def fsCall_def logCall_def monad_defs Let_def fs_pathExists_def
      split: option.splits)

section \<open>Removal with retry: the bound and the outcomes\<close>

lemma fs_remove_unfold:
  "fs_remove env p w =
     (case fsFault env (fsClock w) of
        Some e \<Rightarrow> (Throw e, w\<lparr>calls := calls w @ [FsRemove p], fsClock := Suc (fsClock w)\<rparr>)
      | None \<Rightarrow> (Ok (), w\<lparr>calls := calls w @ [FsRemove p], fsClock := Suc (fsClock w),
                 disk := (case remove_at p (Some (disk w)) of None \<Rightarrow> Dir [] | Some d' \<Rightarrow> d')\<rparr>))"
  by (simp add: fs_remove_def thenM_def bindM_def logCall_def modifyM_def fsCall_def Let_def split: option.splits)

lemma removeLoop_spec:
  "a \<le> M \<Longrightarrow> removeLoop env p M d a w = (r, w') \<Longrightarrow>
   fsClock w < fsClock w' \<and> fsClock w' - fsClock w \<le> Suc M - a \<and>
   (\<forall>i. fsClock w \<le> i \<and> Suc i < fsClock w' \<longrightarrow> (\<exists>e. fsFault env i = Some e \<and> isLockedError e)) \<and>
   (case fsFault env (fsClock w' - 1) of
      None \<Rightarrow> r = Ok ()
    | Some e \<Rightarrow> r = Throw e \<and> (isLockedError e \<longrightarrow> fsClock w' - fsClock w = Suc M - a)) \<and>
   calls w' = calls w @ FsRemove p # concat (replicate (fsClock w' - fsClock w - 1) [Sleep d, FsRemove p])"
proof (induction env p M d a w arbitrary: r w' rule: removeLoop.induct)
  case (1 env p M d a w)
  note unf = removeLoop.simps[of env p M d a w]
  show ?case
  proof (cases "fsFault env (fsClock w)")
    case None
    with "1.prems" show ?thesis
      by (auto simp add: unf fs_remove_unfold)
  next
    case (Some e)
    show ?thesis
    proof (cases "isLockedError e \<and> a < M")
      case False
      with Some "1.prems" show ?thesis
        by (auto simp add: unf fs_remove_unfold)
    next
      case True
      let ?w1 = "w\<lparr>calls := calls w @ [FsRemove p], fsClock := Suc (fsClock w)\<rparr>"
      let ?w2 = "?w1\<lparr>calls := calls ?w1 @ [Sleep d]\<rparr>"
      have rec: "removeLoop env p M d (Suc a) ?w2 = (r, w')"
        using "1.prems" Some True by (simp add: unf fs_remove_unfold sleep_def logCall_def modifyM_def)
      have fr: "fs_remove env p w = (Throw e, ?w1)" using Some by (simp add: fs_remove_unfold)
      have sl: "sleep d ?w1 = (Ok (), ?w2)" by (simp add: sleep_def logCall_def modifyM_def)
      note ih = "1.IH"[OF \<open>a \<le> M\<close> fr[symmetric] refl True sl[symmetric] _ rec]
      have i1: "Suc (fsClock w) < fsClock w'" using ih True by simp
      have i2: "fsClock w' - Suc (fsClock w) \<le> M - a" using ih True by simp
      have i3: "\<forall>i. Suc (fsClock w) \<le> i \<and> Suc i < fsClock w' \<longrightarrow> (\<exists>e. fsFault env i = Some e \<and> isLockedError e)"
        using ih True by simp
      have i4: "(case fsFault env (fsClock w' - 1) of
          None \<Rightarrow> r = Ok ()
        | Some e \<Rightarrow> r = Throw e \<and> (isLockedError e \<longrightarrow> fsClock w' - Suc (fsClock w) = M - a))"
        using ih True by (simp split: option.splits)
      have i5: "calls w' = calls w @ FsRemove p # Sleep d # FsRemove p #
          concat (replicate (fsClock w' - Suc (Suc (fsClock w))) [Sleep d, FsRemove p])"
        using ih True by simp
      have c1: "fsClock w < fsClock w'" using i1 by simp
      have c2: "fsClock w' - fsClock w \<le> Suc M - a" using i1 i2 True by linarith
      have c3: "\<forall>i. fsClock w \<le> i \<and> Suc i < fsClock w' \<longrightarrow> (\<exists>e. fsFault env i = Some e \<and> isLockedError e)"
      proof (intro allI impI)
        fix i assume h: "fsClock w \<le> i \<and> Suc i < fsClock w'"
        show "\<exists>e. fsFault env i = Some e \<and> isLockedError e"
        proof (cases "i = fsClock w")
          case True
          then show ?thesis using Some \<open>isLockedError e \<and> a < M\<close> by simp
        next
          case False
          then have "Suc (fsClock w) \<le> i" using h by simp
          then show ?thesis using i3 h by blast
        qed
      qed
      have c4: "(case fsFault env (fsClock w' - 1) of
          None \<Rightarrow> r = Ok ()
        | Some e \<Rightarrow> r = Throw e \<and> (isLockedError e \<longrightarrow> fsClock w' - fsClock w = Suc M - a))"
      proof (cases "fsFault env (fsClock w' - 1)")
        case None
        then show ?thesis using i4 by simp
      next
        case (Some e')
        have "fsClock w' - Suc (fsClock w) = M - a \<Longrightarrow> fsClock w' - fsClock w = Suc M - a"
          using i1 True by linarith
        then show ?thesis using i4 Some by auto
      qed
      have "fsClock w' - fsClock w - 1 = Suc (fsClock w' - Suc (Suc (fsClock w)))" using i1 by linarith
      then have c5: "calls w' = calls w @ FsRemove p # concat (replicate (fsClock w' - fsClock w - 1) [Sleep d, FsRemove p])"
        using i5 by simp
      show ?thesis using c1 c2 c3 c4 c5 by blast
    qed
  qed
qed

text \<open>
  C6. \<open>removeWithRetry\<close> with at least one attempt allowed (the default is five): whatever
  the outcomes of the underlying \<open>fs.remove\<close>, with \<open>n\<close> the number of attempts made,
  \<open>n\<close> is at most \<open>maxAttempts\<close>; the call returns normally exactly when one of the
  attempts made succeeds; an error outside the lock class is rethrown at once, with no
  further attempt; a lock-class error before the last allowed attempt is followed by a
  retry; the error of the last allowed attempt is rethrown; and the calls made are the
  first removal followed, for every retry, by a wait of \<open>delayMs\<close> and a removal.
\<close>

theorem removeWithRetry_bounded:
  assumes "1 \<le> maxAttempts"
    and "removeWithRetry env targetPath maxAttempts delayMs w = (r, w')"
  shows "let n = fsClock w' - fsClock w; outcome = (\<lambda>i. fsFault env (fsClock w + i)) in
     1 \<le> n \<and> n \<le> maxAttempts
     \<and> ((r = Ok ()) = (\<exists>i<n. outcome i = None))
     \<and> (\<forall>i<n. \<forall>e. outcome i = Some e \<and> \<not> isLockedError e \<longrightarrow> r = Throw e \<and> n = Suc i)
     \<and> (\<forall>i<n. \<forall>e. outcome i = Some e \<and> isLockedError e \<and> Suc i < maxAttempts \<longrightarrow> Suc i < n)
     \<and> (\<forall>e. n = maxAttempts \<and> outcome (maxAttempts - 1) = Some e \<longrightarrow> r = Throw e)
     \<and> calls w' = calls w @ FsRemove targetPath # concat (replicate (n - 1) [Sleep delayMs, FsRemove targetPath])"
proof -
  have loop: "removeLoop env targetPath maxAttempts delayMs 1 w = (r, w')"
    using assms(2) by (simp add: removeWithRetry_def)
  note sp = removeLoop_spec[OF assms(1) loop]
  define n where "n = fsClock w' - fsClock w"
  define outcome where "outcome = (\<lambda>i. fsFault env (fsClock w + i))"
  have lt: "fsClock w < fsClock w'" using sp by simp
  have n1: "1 \<le> n" using lt by (simp add: n_def)
  have nM: "n \<le> maxAttempts" using sp by (simp add: n_def)
  have early: "\<And>i. Suc i < n \<Longrightarrow> \<exists>e. outcome i = Some e \<and> isLockedError e"
  proof -
    fix i assume "Suc i < n"
    then have "fsClock w \<le> fsClock w + i \<and> Suc (fsClock w + i) < fsClock w'" by (simp add: n_def)
    then show "\<exists>e. outcome i = Some e \<and> isLockedError e" using sp unfolding outcome_def by blast
  qed
  have last_idx: "fsClock w' - 1 = fsClock w + (n - 1)" using lt by (simp add: n_def)
  have lastc: "(case outcome (n - 1) of None \<Rightarrow> r = Ok ()
      | Some e \<Rightarrow> r = Throw e \<and> (isLockedError e \<longrightarrow> n = maxAttempts))"
    using sp last_idx by (simp add: outcome_def n_def split: option.splits)
  have a2: "(r = Ok ()) = (\<exists>i<n. outcome i = None)"
  proof
    assume "r = Ok ()"
    then have "outcome (n - 1) = None" using lastc by (auto split: option.splits)
    then show "\<exists>i<n. outcome i = None" using n1 by (intro exI[of _ "n - 1"]) simp
  next
    assume "\<exists>i<n. outcome i = None"
    then obtain i where i: "i < n" "outcome i = None" by blast
    have "\<not> Suc i < n" using early[of i] i by auto
    then have "i = n - 1" using i by simp
    then show "r = Ok ()" using lastc i by simp
  qed
  have a3: "\<forall>i<n. \<forall>e. outcome i = Some e \<and> \<not> isLockedError e \<longrightarrow> r = Throw e \<and> n = Suc i"
  proof (intro allI impI)
    fix i e assume i: "i < n" and h: "outcome i = Some e \<and> \<not> isLockedError e"
    have "\<not> Suc i < n" using early[of i] h by auto
    then have "i = n - 1" "n = Suc i" using i by simp_all
    then show "r = Throw e \<and> n = Suc i" using lastc h by simp
  qed
  have a4: "\<forall>i<n. \<forall>e. outcome i = Some e \<and> isLockedError e \<and> Suc i < maxAttempts \<longrightarrow> Suc i < n"
  proof (intro allI impI)
    fix i e assume i: "i < n" and h: "outcome i = Some e \<and> isLockedError e \<and> Suc i < maxAttempts"
    show "Suc i < n"
    proof (rule ccontr)
      assume "\<not> Suc i < n"
      then have "i = n - 1" using i by simp
      then have "n = maxAttempts" using lastc h by simp
      then show False using h \<open>i = n - 1\<close> n1 by simp
    qed
  qed
  have a5: "\<forall>e. n = maxAttempts \<and> outcome (maxAttempts - 1) = Some e \<longrightarrow> r = Throw e"
    using lastc by auto
  have a6: "calls w' = calls w @ FsRemove targetPath # concat (replicate (n - 1) [Sleep delayMs, FsRemove targetPath])"
    using sp by (simp add: n_def)
  show ?thesis
    unfolding Let_def n_def[symmetric] outcome_def[symmetric]
    using n1 nM a2 a3 a4 a5 a6 by blast
qed

lemma busy_run:
  "removeWithRetry busyTwiceEnv [''srv'', ''Server'', ''HytaleServer.jar''] 5 1000 emptyWorld
     = (Ok (), emptyWorld\<lparr>calls := [FsRemove [''srv'', ''Server'', ''HytaleServer.jar''], Sleep 1000,
             FsRemove [''srv'', ''Server'', ''HytaleServer.jar''], Sleep 1000,
             FsRemove [''srv'', ''Server'', ''HytaleServer.jar'']], fsClock := 3\<rparr>)"
  by (simp add: removeWithRetry_def removeLoop.simps fs_remove_unfold sleep_def logCall_def modifyM_def
      busyTwiceEnv_def quietEnv_def emptyWorld_def isLockedError_def LOCKED_FILE_ERRORS_def)

theorem removeWithRetry_bounded_witness:
  "(1::nat) \<le> 5 \<and>
   removeWithRetry busyTwiceEnv [''srv'', ''Server'', ''HytaleServer.jar''] 5 1000 emptyWorld
     = (Ok (), emptyWorld\<lparr>calls := [FsRemove [''srv'', ''Server'', ''HytaleServer.jar''], Sleep 1000,
             FsRemove [''srv'', ''Server'', ''HytaleServer.jar''], Sleep 1000,
             FsRemove [''srv'', ''Server'', ''HytaleServer.jar'']], fsClock := 3\<rparr>) \<and>
   (\<exists>i<3. fsFault busyTwiceEnv i = None)"
proof -
  have h: "(1::nat) \<le> 5" by simp
  from removeWithRetry_bounded[OF h busy_run]
  have "\<exists>i<3. fsFault busyTwiceEnv i = None"
    by (simp add: emptyWorld_def Let_def)
  then show ?thesis using h busy_run by blast
qed

section \<open>The history lookup of rollback\<close>

lemma latestMatch_some:
  "best \<noteq> None \<or> (\<exists>h \<in> set hs. P h) \<Longrightarrow> latestMatch P hs i best \<noteq> None"
proof (induction hs arbitrary: i best)
  case Nil
  then show ?case by simp
next
  case (Cons a hs)
  let ?best' = "(if P a \<and> (case best of None \<Rightarrow> True | Some (j, b) \<Rightarrow> h_startedAt b < h_startedAt a)
        then Some (i, a) else best)"
  have "?best' \<noteq> None \<or> (\<exists>h \<in> set hs. P h)"
    using Cons.prems by (cases best) auto
  then have "latestMatch P hs (Suc i) ?best' \<noteq> None" by (rule Cons.IH)
  then show ?case by simp
qed

lemma latestMatch_spec:
  "latestMatch P hs i best = Some (j, h) \<Longrightarrow> length pre = i \<Longrightarrow>
   (case best of None \<Rightarrow> True
    | Some (j0, b) \<Rightarrow> j0 < i \<and> pre ! j0 = b \<and> P b \<and> (\<forall>h' \<in> set pre. P h' \<longrightarrow> h_startedAt h' \<le> h_startedAt b)) \<Longrightarrow>
   (best = None \<longrightarrow> (\<forall>h' \<in> set pre. \<not> P h')) \<Longrightarrow>
   j < length (pre @ hs) \<and> (pre @ hs) ! j = h \<and> P h
     \<and> (\<forall>h' \<in> set (pre @ hs). P h' \<longrightarrow> h_startedAt h' \<le> h_startedAt h)"
proof (induction hs arbitrary: i best pre)
  case Nil
  then show ?case by (auto split: option.splits)
next
  case (Cons a hs)
  let ?best' = "(if P a \<and> (case best of None \<Rightarrow> True | Some (j, b) \<Rightarrow> h_startedAt b < h_startedAt a)
        then Some (i, a) else best)"
  have run: "latestMatch P hs (Suc i) ?best' = Some (j, h)" using Cons.prems(1) by simp
  have len: "length (pre @ [a]) = Suc i" using Cons.prems(2) by simp
  have inv: "(case ?best' of None \<Rightarrow> True
    | Some (j0, b) \<Rightarrow> j0 < Suc i \<and> (pre @ [a]) ! j0 = b \<and> P b
        \<and> (\<forall>h' \<in> set (pre @ [a]). P h' \<longrightarrow> h_startedAt h' \<le> h_startedAt b))"
    using Cons.prems(2,3,4) by (fastforce split: option.splits simp add: nth_append)
  have none: "?best' = None \<longrightarrow> (\<forall>h' \<in> set (pre @ [a]). \<not> P h')"
    using Cons.prems(4) by (auto split: option.splits if_splits)
  from Cons.IH[OF run len inv none] show ?case by simp
qed

lemma history_findFirst_spec:
  assumes "history_findFirst sid bid w = Some (j, h)"
  shows "j < length (historyTable w) \<and> historyTable w ! j = h
     \<and> h_serverId h = sid \<and> h_backupId h = Some bid
     \<and> (\<forall>h' \<in> set (historyTable w). h_serverId h' = sid \<and> h_backupId h' = Some bid
            \<longrightarrow> h_startedAt h' \<le> h_startedAt h)"
  using latestMatch_spec[of "\<lambda>h. h_serverId h = sid \<and> h_backupId h = Some bid" "historyTable w" 0 None j h "[]"] assms
  by (simp add: history_findFirst_def)


lemma history_findFirst_some:
  "\<exists>h \<in> set (historyTable w). h_serverId h = sid \<and> h_backupId h = Some bid \<Longrightarrow>
   history_findFirst sid bid w \<noteq> None"
  unfolding history_findFirst_def by (rule latestMatch_some) simp

section \<open>Starting an update: preconditions\<close>

lemma queryLatest_fail:
  "\<forall>v. getGameVersionOut env = Inr v \<longrightarrow> \<not> truthy v \<Longrightarrow>
   \<exists>msg. queryLatest env w = (Throw (Error (''Could not determine latest version: '' @ msg)), w\<lparr>calls := calls w @ [GetGameVersion]\<rparr>)"
  by (cases "getGameVersionOut env")
     (auto simp add: queryLatest_def getGameVersion_def logCall_def monad_defs)

lemma queryLatest_ok:
  "getGameVersionOut env = Inr (Some v) \<Longrightarrow> v \<noteq> [] \<Longrightarrow>
   queryLatest env w = (Ok v, w\<lparr>calls := calls w @ [GetGameVersion]\<rparr>)"
  by (simp add: queryLatest_def getGameVersion_def logCall_def monad_defs truthy_def orDefault_def)

text \<open>
  C3. \<open>startUpdate\<close> rejects, each time with its own reason and with nothing written (no
  session in the heap or the session map, no history record, the server record as it
  was; when the provider was asked, only that call is recorded): when the server does
  not exist; when its \<open>updateInProgress\<close> flag is set; when no target version can be
  resolved, there being no argument and the provider throwing or having no version; and
  when the resolved target, the argument or the provider's latest version, is the
  server's current version.
\<close>

theorem startUpdate_rejects:
  "(servers w sid = None \<longrightarrow>
      startUpdate env sid tv w = (Throw (Error (''Server '' @ sid @ '' not found'')), w))
   \<and> (\<forall>sv. servers w sid = Some sv \<and> updateInProgress sv \<longrightarrow>
      startUpdate env sid tv w = (Throw (Error (''Server '' @ name sv @ '' is already being updated'')), w))
   \<and> (\<forall>sv. servers w sid = Some sv \<and> \<not> updateInProgress sv \<and> \<not> truthy tv
          \<and> (\<forall>v. getGameVersionOut env = Inr v \<longrightarrow> \<not> truthy v) \<longrightarrow>
      (\<exists>msg. startUpdate env sid tv w =
         (Throw (Error (''Could not determine latest version: '' @ msg)),
          w\<lparr>calls := calls w @ [GetGameVersion]\<rparr>)))
   \<and> (\<forall>sv. servers w sid = Some sv \<and> \<not> updateInProgress sv \<and> truthy tv \<and> tv = Some (version sv) \<longrightarrow>
      startUpdate env sid tv w = (Throw (Error (''Server is already at version '' @ version sv)), w))
   \<and> (\<forall>sv. servers w sid = Some sv \<and> \<not> updateInProgress sv \<and> \<not> truthy tv
          \<and> getGameVersionOut env = Inr (Some (version sv)) \<and> version sv \<noteq> [] \<longrightarrow>
      startUpdate env sid tv w =
        (Throw (Error (''Server is already at version '' @ version sv)),
         w\<lparr>calls := calls w @ [GetGameVersion]\<rparr>))"
proof (intro conjI allI impI)
  assume "servers w sid = None"
  then show "startUpdate env sid tv w = (Throw (Error (''Server '' @ sid @ '' not found'')), w)"
    by (simp add: startUpdate_def)
next
  fix sv assume "servers w sid = Some sv \<and> updateInProgress sv"
  then show "startUpdate env sid tv w = (Throw (Error (''Server '' @ name sv @ '' is already being updated'')), w)"
    by (simp add: startUpdate_def)
next
  fix sv assume h: "servers w sid = Some sv \<and> \<not> updateInProgress sv \<and> \<not> truthy tv
          \<and> (\<forall>v. getGameVersionOut env = Inr v \<longrightarrow> \<not> truthy v)"
  then obtain msg where q: "queryLatest env w = (Throw (Error (''Could not determine latest version: '' @ msg)), w\<lparr>calls := calls w @ [GetGameVersion]\<rparr>)"
    using queryLatest_fail[of env w] by blast
  have "resolveTarget env tv w = queryLatest env w"
    using h by (cases tv) (auto simp add: resolveTarget_def truthy_def)
  then show "\<exists>msg. startUpdate env sid tv w =
         (Throw (Error (''Could not determine latest version: '' @ msg)),
          w\<lparr>calls := calls w @ [GetGameVersion]\<rparr>)"
    using h q by (auto simp add: startUpdate_def bindM_def)
next
  fix sv assume h: "servers w sid = Some sv \<and> \<not> updateInProgress sv \<and> truthy tv \<and> tv = Some (version sv)"
  then have "resolveTarget env tv w = (Ok (version sv), w)"
    by (auto simp add: resolveTarget_def truthy_def returnM_def)
  then show "startUpdate env sid tv w = (Throw (Error (''Server is already at version '' @ version sv)), w)"
    using h by (simp add: startUpdate_def bindM_def throwM_def)
next
  fix sv assume h: "servers w sid = Some sv \<and> \<not> updateInProgress sv \<and> \<not> truthy tv
          \<and> getGameVersionOut env = Inr (Some (version sv)) \<and> version sv \<noteq> []"
  have "resolveTarget env tv w = queryLatest env w"
    using h by (cases tv) (auto simp add: resolveTarget_def truthy_def)
  then have "resolveTarget env tv w = (Ok (version sv), w\<lparr>calls := calls w @ [GetGameVersion]\<rparr>)"
    using h queryLatest_ok[of env "version sv" w] by simp
  then show "startUpdate env sid tv w =
        (Throw (Error (''Server is already at version '' @ version sv)),
         w\<lparr>calls := calls w @ [GetGameVersion]\<rparr>)"
    using h by (simp add: startUpdate_def bindM_def throwM_def)
qed


theorem startUpdate_rejects_witness:
  "servers demoWorld ''nope'' = None
   \<and> startUpdate quietEnv ''nope'' None demoWorld = (Throw (Error ''Server nope not found''), demoWorld)
   \<and> startUpdate quietEnv ''s1'' None busyWorld = (Throw (Error ''Server Orbis is already being updated''), busyWorld)
   \<and> fst (startUpdate offlineEnv ''s1'' None demoWorld)
        = Throw (Error ''Could not determine latest version: not authenticated'')
   \<and> snd (startUpdate offlineEnv ''s1'' None demoWorld) = demoWorld\<lparr>calls := calls demoWorld @ [GetGameVersion]\<rparr>
   \<and> startUpdate quietEnv ''s1'' (Some ''1.0'') demoWorld = (Throw (Error ''Server is already at version 1.0''), demoWorld)
   \<and> startUpdate currentEnv ''s1'' None demoWorld
        = (Throw (Error ''Server is already at version 1.0''), demoWorld\<lparr>calls := calls demoWorld @ [GetGameVersion]\<rparr>)"
proof -
  have h1: "servers demoWorld ''nope'' = None" by (simp add: demoWorld_def)
  have h2: "servers busyWorld ''s1'' = Some (demoServer\<lparr>updateInProgress := True\<rparr>)
      \<and> updateInProgress (demoServer\<lparr>updateInProgress := True\<rparr>)"
    by (simp add: busyWorld_def)
  have sv: "servers demoWorld ''s1'' = Some demoServer" by (simp add: demoWorld_def)
  have nb: "\<not> updateInProgress demoServer" by (simp add: demoServer_def)
  have ver: "version demoServer = ''1.0''" by (simp add: demoServer_def)
  have nm: "name (demoServer\<lparr>updateInProgress := True\<rparr>) = ''Orbis''" by (simp add: demoServer_def)
  have h3: "servers demoWorld ''s1'' = Some demoServer \<and> \<not> updateInProgress demoServer \<and> \<not> truthy None
          \<and> (\<forall>v. getGameVersionOut offlineEnv = Inr v \<longrightarrow> \<not> truthy v)"
    using sv nb by (simp add: truthy_def offlineEnv_def)
  have h4: "servers demoWorld ''s1'' = Some demoServer \<and> \<not> updateInProgress demoServer
          \<and> truthy (Some ''1.0'') \<and> Some ''1.0'' = Some (version demoServer)"
    using sv nb ver by (simp add: truthy_def)
  have h5: "servers demoWorld ''s1'' = Some demoServer \<and> \<not> updateInProgress demoServer \<and> \<not> truthy None
          \<and> getGameVersionOut currentEnv = Inr (Some (version demoServer)) \<and> version demoServer \<noteq> []"
    using sv nb ver by (simp add: truthy_def currentEnv_def)
  note t1 = startUpdate_rejects[of demoWorld "''nope''" quietEnv None, THEN conjunct1, rule_format, OF h1]
  note t2 = startUpdate_rejects[of busyWorld "''s1''" quietEnv None, THEN conjunct2, THEN conjunct1, rule_format, OF h2]
  note t3 = startUpdate_rejects[of demoWorld "''s1''" offlineEnv None, THEN conjunct2, THEN conjunct2, THEN conjunct1, rule_format, OF h3]
  note t4 = startUpdate_rejects[of demoWorld "''s1''" quietEnv "Some ''1.0''", THEN conjunct2, THEN conjunct2, THEN conjunct2, THEN conjunct1, rule_format, OF h4]
  note t5 = startUpdate_rejects[of demoWorld "''s1''" currentEnv None, THEN conjunct2, THEN conjunct2, THEN conjunct2, THEN conjunct2, rule_format, OF h5]
  have c1: "startUpdate quietEnv ''nope'' None demoWorld = (Throw (Error ''Server nope not found''), demoWorld)"
    using t1 by simp
  have c2: "startUpdate quietEnv ''s1'' None busyWorld = (Throw (Error ''Server Orbis is already being updated''), busyWorld)"
    using t2 by (simp only: nm) simp
  from t3 obtain msg where m: "startUpdate offlineEnv ''s1'' None demoWorld =
         (Throw (Error (''Could not determine latest version: '' @ msg)), demoWorld\<lparr>calls := calls demoWorld @ [GetGameVersion]\<rparr>)"
    by (rule exE)
  have s3: "snd (startUpdate offlineEnv ''s1'' None demoWorld) = demoWorld\<lparr>calls := calls demoWorld @ [GetGameVersion]\<rparr>"
    by (simp only: m snd_conv)
  have f3: "fst (startUpdate offlineEnv ''s1'' None demoWorld) = Throw (Error ''Could not determine latest version: not authenticated'')"
    by (simp add: startUpdate_def sv nb resolveTarget_def queryLatest_def getGameVersion_def logCall_def monad_defs
         Error_def offlineEnv_def)
  have c4: "startUpdate quietEnv ''s1'' (Some ''1.0'') demoWorld = (Throw (Error ''Server is already at version 1.0''), demoWorld)"
    using t4 by (simp only: ver) simp
  have c5: "startUpdate currentEnv ''s1'' None demoWorld
        = (Throw (Error ''Server is already at version 1.0''), demoWorld\<lparr>calls := calls demoWorld @ [GetGameVersion]\<rparr>)"
    using t5 by (simp only: ver) simp
  show ?thesis
    by (intro conjI) (rule h1 c1 c2 f3 s3 c4 c5)+
qed


text \<open>
  C10, as the code has it. The claim fails for the empty string: \<open>!toVersion\<close> treats
  it as no argument, and the provider is asked.
\<close>

theorem startUpdate_explicit_empty_counterexample:
  "servers demoWorld ''s1'' = Some demoServer \<and> \<not> updateInProgress demoServer
   \<and> version demoServer \<noteq> []
   \<and> fst (startUpdate offlineEnv ''s1'' (Some []) demoWorld)
        = Throw (Error ''Could not determine latest version: not authenticated'')
   \<and> calls (snd (startUpdate offlineEnv ''s1'' (Some []) demoWorld)) = [GetGameVersion]"
  by (simp add: startUpdate_def demoWorld_def emptyWorld_def offlineEnv_def quietEnv_def demoServer_def
     resolveTarget_def queryLatest_def getGameVersion_def logCall_def monad_defs Error_def)

text \<open>
  C10, amended. Called with a non-empty target version that differs from the current
  version of an existing server that is not being updated, \<open>startUpdate\<close> returns the
  new session, whatever the provider would answer: the provider is not called (the only
  call is the notification, when the sink is configured), the session is pending in the
  heap and in the session map, the server is flagged, the history record is created and
  \<open>update:started\<close> is emitted.
\<close>

theorem startUpdate_explicit_target:
  assumes "servers w sid = Some sv" and "\<not> updateInProgress sv"
    and "tv \<noteq> []" and "tv \<noteq> version sv"
  shows "\<exists>w'. startUpdate env sid (Some tv) w = (Ok (nextRef w, length (historyTable w)), w')
     \<and> calls w' = calls w @ (if hasDiscordService env then [Notify ''server_update_started'' (name sv)] else [])
     \<and> sessions w' = (sessions w)(''update-'' @ decimal (dateNow env) @ ''-'' @ randomSuffix env \<mapsto> nextRef w)
     \<and> heap w' (nextRef w) =
          \<lparr>sessionId = ''update-'' @ decimal (dateNow env) @ ''-'' @ randomSuffix env, serverId = sid,
           fromVersion = version sv, toVersion = tv, status = pending, progress = 0, message = None,
           error = None, backupId = None, startedAt = dateNow env,
           wasRunning = (serverStatus sv = ''running''), downloadSessionId = None, tempPreservePath = None\<rparr>
     \<and> servers w' = (servers w)(sid \<mapsto> sv\<lparr>updateInProgress := True\<rparr>)
     \<and> historyTable w' = historyTable w @
          [\<lparr>h_serverId = sid, h_fromVersion = version sv, h_toVersion = tv, h_status = pending,
            h_error = None, h_backupId = None, h_startedAt = dateNow env, h_completedAt = None\<rparr>]
     \<and> events w' = events w @
          [UpdateStarted (''update-'' @ decimal (dateNow env) @ ''-'' @ randomSuffix env) sid (name sv) (version sv) tv]"
  using assms
  by (simp add: startUpdate_def resolveTarget_def monad_defs Let_def sessions_set_def server_update_def
      history_create_def emit_def notify_def logCall_def)

theorem startUpdate_explicit_target_witness:
  "servers demoWorld ''s1'' = Some demoServer \<and> \<not> updateInProgress demoServer
   \<and> ''1.1'' \<noteq> version demoServer
   \<and> fst (startUpdate offlineEnv ''s1'' (Some ''1.1'') demoWorld) = Ok (0, 0)
   \<and> calls (snd (startUpdate offlineEnv ''s1'' (Some ''1.1'') demoWorld)) = [Notify ''server_update_started'' ''Orbis'']"
proof -
  have h1: "servers demoWorld ''s1'' = Some demoServer" by (simp add: demoWorld_def)
  have h2: "\<not> updateInProgress demoServer" by (simp add: demoServer_def)
  have h3: "''1.1'' \<noteq> ([]::string)" by simp
  have h4: "''1.1'' \<noteq> version demoServer" by (simp add: demoServer_def)
  from startUpdate_explicit_target[OF h1 h2 h3 h4, of offlineEnv]
  obtain w' where "startUpdate offlineEnv ''s1'' (Some ''1.1'') demoWorld = (Ok (nextRef demoWorld, length (historyTable demoWorld)), w')"
    and "calls w' = calls demoWorld @ (if hasDiscordService offlineEnv then [Notify ''server_update_started'' (name demoServer)] else [])"
    by blast
  then show ?thesis using h1 h2 h4
    by (simp add: demoWorld_def emptyWorld_def offlineEnv_def quietEnv_def demoServer_def)
qed

section \<open>Rolling back\<close>

lemma onlyCalls_refl: "onlyCalls w w"
  by (simp add: onlyCalls_def)

lemma rollback_prefix:
  "seqM [whenM c1 (seqM [stopServer env sid, sleep 2000]), whenM c2 (restoreBackup env bid)] w = (r, w1)
   \<Longrightarrow> onlyCalls w w1"
  by (auto simp add: onlyCalls_def monad_defs stopServer_def sleep_def restoreBackup_def logCall_def
      split: option.splits if_splits)

lemma rollback_prefix_ok:
  "stopServerOut env = None \<Longrightarrow> restoreBackupOut env = None \<Longrightarrow>
   fst (seqM [whenM c1 (seqM [stopServer env sid, sleep 2000]), whenM c2 (restoreBackup env bid)] w) = Ok ()"
  by (auto simp add: monad_defs stopServer_def sleep_def restoreBackup_def logCall_def)

text \<open>
  C5, as the code has it. With a backup id on the server and no history record of that
  backup, rollback completes and leaves the version and the backup id as they were.
\<close>

theorem rollback_no_history_counterexample:
  "servers orphanBackupWorld ''s1'' = Some updatedServer
   \<and> preUpdateBackupId updatedServer = Some ''backup-1''
   \<and> fst (rollback quietEnv ''s1'' orphanBackupWorld) = Ok ()
   \<and> servers (snd (rollback quietEnv ''s1'' orphanBackupWorld)) ''s1'' = Some updatedServer"
  by (simp add: rollback_def orphanBackupWorld_def emptyWorld_def updatedServer_def demoServer_def quietEnv_def
      truthy_def orDefault_def monad_defs stopServer_def startServer_def restoreBackup_def sleep_def logCall_def
      emit_def history_findFirst_def Let_def)

text \<open>
  C5, amended. Without a (non-empty) \<open>preUpdateBackupId\<close> on the server record, rollback
  throws and changes nothing. With one, and with a history record of this server that
  carries it, a rollback that completes has set the server's version to the
  \<open>fromVersion\<close> of a matching record whose \<open>startedAt\<close> no matching record exceeds, has
  cleared \<open>preUpdateBackupId\<close>, has set that record's status to \<open>rolled_back\<close> and has
  emitted \<open>update:rollback-completed\<close>; the sessions are neither read nor written. And
  rollback does complete when the process controller and the backup service do not fail.
\<close>

theorem rollback_restores:
  "(\<forall>sv. servers w sid = Some sv \<and> \<not> truthy (preUpdateBackupId sv) \<longrightarrow>
       rollback env sid w = (Throw (Error ''No pre-update backup available for rollback''), w))
   \<and> (\<forall>sv bid w'. servers w sid = Some sv \<and> preUpdateBackupId sv = Some bid \<and> bid \<noteq> []
         \<and> (\<exists>h \<in> set (historyTable w). h_serverId h = sid \<and> h_backupId h = Some bid)
         \<and> rollback env sid w = (Ok (), w') \<longrightarrow>
       (\<exists>hid h. hid < length (historyTable w) \<and> historyTable w ! hid = h
          \<and> h_serverId h = sid \<and> h_backupId h = Some bid
          \<and> (\<forall>h' \<in> set (historyTable w). h_serverId h' = sid \<and> h_backupId h' = Some bid
                \<longrightarrow> h_startedAt h' \<le> h_startedAt h)
          \<and> servers w' = (servers w)(sid \<mapsto> sv\<lparr>version := h_fromVersion h, preUpdateBackupId := None\<rparr>)
          \<and> historyTable w' = (historyTable w)[hid := h\<lparr>h_status := rolled_back\<rparr>]
          \<and> events w' = events w @ [RollbackCompleted sid]
          \<and> sessions w' = sessions w \<and> heap w' = heap w))
   \<and> (\<forall>sv. servers w sid = Some sv \<and> truthy (preUpdateBackupId sv) \<and> stopServerOut env = None
         \<and> restoreBackupOut env = None \<and> startServerOut env = None \<longrightarrow>
       fst (rollback env sid w) = Ok ())"
proof (intro conjI allI impI)
  fix sv assume "servers w sid = Some sv \<and> \<not> truthy (preUpdateBackupId sv)"
  then show "rollback env sid w = (Throw (Error ''No pre-update backup available for rollback''), w)"
    by (simp add: rollback_def)
next
  fix sv bid w'
  assume h: "servers w sid = Some sv \<and> preUpdateBackupId sv = Some bid \<and> bid \<noteq> []
         \<and> (\<exists>h \<in> set (historyTable w). h_serverId h = sid \<and> h_backupId h = Some bid)
         \<and> rollback env sid w = (Ok (), w')"
  let ?c = "serverStatus sv = ''running'' \<and> hasServerService env"
  let ?pre = "seqM [whenM ?c (seqM [stopServer env sid, sleep 2000]), whenM (hasBackupService env) (restoreBackup env bid)]"
  let ?post = "seqM [(\<lambda>w. case history_findFirst sid bid w of
                       None \<Rightarrow> returnM () w
                     | Some (hid, updateHistory) \<Rightarrow>
                         seqM
                           [server_update sid
                              (\<lambda>sv. sv\<lparr>version := h_fromVersion updateHistory, preUpdateBackupId := None\<rparr>),
                            history_update hid (\<lambda>h. h\<lparr>h_status := rolled_back\<rparr>)] w),
               whenM ?c (startServer env sid),
               emit (RollbackCompleted sid)]"
  have tr: "truthy (preUpdateBackupId sv)" "orDefault (preUpdateBackupId sv) [] = bid"
    using h by (simp_all add: truthy_def orDefault_def)
  have sv: "servers w sid = Some sv" using h by simp
  have "rollback env sid w = seqM [whenM ?c (seqM [stopServer env sid, sleep 2000]),
      whenM (hasBackupService env) (restoreBackup env bid),
      (\<lambda>w. case history_findFirst sid bid w of
                       None \<Rightarrow> returnM () w
                     | Some (hid, updateHistory) \<Rightarrow>
                         seqM
                           [server_update sid
                              (\<lambda>sv. sv\<lparr>version := h_fromVersion updateHistory, preUpdateBackupId := None\<rparr>),
                            history_update hid (\<lambda>h. h\<lparr>h_status := rolled_back\<rparr>)] w),
               whenM ?c (startServer env sid),
               emit (RollbackCompleted sid)] w"
    unfolding rollback_def using sv tr by (simp only: option.case Let_def if_False not_True_eq_False simp_thms)
  then have unf: "rollback env sid w = thenM ?pre ?post w"
    by (simp only: seqM_split2)
  obtain r1 w1 where p1: "?pre w = (r1, w1)" by (cases "?pre w")
  have oc: "onlyCalls w w1" using rollback_prefix[OF p1] .
  have r1: "r1 = Ok ()" and p2: "?post w1 = (Ok (), w')"
    using h unf p1 by (cases r1; simp add: thenM_def bindM_def)+
  have tab: "historyTable w1 = historyTable w" "servers w1 = servers w" "events w1 = events w"
     "sessions w1 = sessions w" "heap w1 = heap w"
    using oc by (simp_all add: onlyCalls_def)
  have "history_findFirst sid bid w1 \<noteq> None"
    using history_findFirst_some[of w1 sid bid] h tab by simp
  then obtain hid hh where ff: "history_findFirst sid bid w1 = Some (hid, hh)" by (cases "history_findFirst sid bid w1") auto
  note sp = history_findFirst_spec[OF ff]
  have hidlt: "hid < length (historyTable w)" and hheq: "historyTable w ! hid = hh" using sp tab by simp_all
  have post: "servers w' = (servers w)(sid \<mapsto> sv\<lparr>version := h_fromVersion hh, preUpdateBackupId := None\<rparr>)
          \<and> historyTable w' = (historyTable w)[hid := hh\<lparr>h_status := rolled_back\<rparr>]
          \<and> events w' = events w @ [RollbackCompleted sid]
          \<and> sessions w' = sessions w \<and> heap w' = heap w"
    using p2 ff h tab hidlt hheq
    by (auto simp add: monad_defs server_update_def history_update_def emit_def startServer_def logCall_def
        split: option.splits if_splits)
  show "\<exists>hid h. hid < length (historyTable w) \<and> historyTable w ! hid = h
          \<and> h_serverId h = sid \<and> h_backupId h = Some bid
          \<and> (\<forall>h' \<in> set (historyTable w). h_serverId h' = sid \<and> h_backupId h' = Some bid
                \<longrightarrow> h_startedAt h' \<le> h_startedAt h)
          \<and> servers w' = (servers w)(sid \<mapsto> sv\<lparr>version := h_fromVersion h, preUpdateBackupId := None\<rparr>)
          \<and> historyTable w' = (historyTable w)[hid := h\<lparr>h_status := rolled_back\<rparr>]
          \<and> events w' = events w @ [RollbackCompleted sid]
          \<and> sessions w' = sessions w \<and> heap w' = heap w"
    apply (rule exI[of _ hid], rule exI[of _ hh])
    using sp tab post by simp
next
  fix sv assume h: "servers w sid = Some sv \<and> truthy (preUpdateBackupId sv) \<and> stopServerOut env = None
         \<and> restoreBackupOut env = None \<and> startServerOut env = None"
  let ?bid = "orDefault (preUpdateBackupId sv) []"
  let ?c = "serverStatus sv = ''running'' \<and> hasServerService env"
  let ?pre = "seqM [whenM ?c (seqM [stopServer env sid, sleep 2000]), whenM (hasBackupService env) (restoreBackup env ?bid)]"
  let ?post = "seqM [(\<lambda>w. case history_findFirst sid ?bid w of
                       None \<Rightarrow> returnM () w
                     | Some (hid, updateHistory) \<Rightarrow>
                         seqM
                           [server_update sid
                              (\<lambda>sv. sv\<lparr>version := h_fromVersion updateHistory, preUpdateBackupId := None\<rparr>),
                            history_update hid (\<lambda>h. h\<lparr>h_status := rolled_back\<rparr>)] w),
               whenM ?c (startServer env sid),
               emit (RollbackCompleted sid)]"
  have sv: "servers w sid = Some sv" and tr: "truthy (preUpdateBackupId sv)" using h by simp_all
  have "rollback env sid w = seqM [whenM ?c (seqM [stopServer env sid, sleep 2000]),
      whenM (hasBackupService env) (restoreBackup env ?bid),
      (\<lambda>w. case history_findFirst sid ?bid w of
                       None \<Rightarrow> returnM () w
                     | Some (hid, updateHistory) \<Rightarrow>
                         seqM
                           [server_update sid
                              (\<lambda>sv. sv\<lparr>version := h_fromVersion updateHistory, preUpdateBackupId := None\<rparr>),
                            history_update hid (\<lambda>h. h\<lparr>h_status := rolled_back\<rparr>)] w),
               whenM ?c (startServer env sid),
               emit (RollbackCompleted sid)] w"
    unfolding rollback_def using sv tr by (simp only: option.case Let_def if_False not_True_eq_False simp_thms)
  then have unf: "rollback env sid w = thenM ?pre ?post w"
    by (simp only: seqM_split2)
  obtain r1 w1 where p1: "?pre w = (r1, w1)" by (cases "?pre w")
  have r1: "r1 = Ok ()" using rollback_prefix_ok[of env ?c sid "hasBackupService env" ?bid w] h p1 by simp
  have oc: "onlyCalls w w1" using rollback_prefix[OF p1] .
  have sv1: "servers w1 sid = Some sv" using oc h by (simp add: onlyCalls_def)
  have sso: "startServerOut env = None" using h by simp
  have post_ok: "fst (?post w1) = Ok ()"
  proof (cases "history_findFirst sid ?bid w1")
    case None
    then show ?thesis using sso
      by (simp add: monad_defs startServer_def logCall_def emit_def)
  next
    case (Some a)
    obtain hid hh where a: "a = (hid, hh)" by (cases a)
    have "hid < length (historyTable w1)" using history_findFirst_spec[OF Some[unfolded a]] by simp
    then show ?thesis using sso Some a sv1
      by (simp add: monad_defs startServer_def logCall_def emit_def server_update_def history_update_def)
  qed
  show "fst (rollback env sid w) = Ok ()"
    using unf p1 r1 post_ok by (simp add: thenM_def bindM_def)
qed


theorem rollback_restores_witness:
  "servers updatedWorld ''s1'' = Some updatedServer
   \<and> preUpdateBackupId updatedServer = Some ''backup-1''
   \<and> fst (rollback quietEnv ''s1'' updatedWorld) = Ok ()
   \<and> servers (snd (rollback quietEnv ''s1'' updatedWorld)) ''s1''
        = Some (updatedServer\<lparr>version := ''1.0'', preUpdateBackupId := None\<rparr>)
   \<and> historyTable (snd (rollback quietEnv ''s1'' updatedWorld)) = [updatedHistory\<lparr>h_status := rolled_back\<rparr>]"
proof -
  let ?w' = "snd (rollback quietEnv ''s1'' updatedWorld)"
  have sv: "servers updatedWorld ''s1'' = Some updatedServer" by (simp add: updatedWorld_def)
  have bk: "preUpdateBackupId updatedServer = Some ''backup-1''" by (simp add: updatedServer_def)
  have tab: "historyTable updatedWorld = [updatedHistory]" by (simp add: updatedWorld_def emptyWorld_def)
  have hh: "h_serverId updatedHistory = ''s1''" "h_backupId updatedHistory = Some ''backup-1''"
    "h_fromVersion updatedHistory = ''1.0''"
    by (simp_all add: updatedHistory_def)
  have pre3: "servers updatedWorld ''s1'' = Some updatedServer \<and> truthy (preUpdateBackupId updatedServer)
      \<and> stopServerOut quietEnv = None \<and> restoreBackupOut quietEnv = None \<and> startServerOut quietEnv = None"
    using sv bk by (simp add: truthy_def quietEnv_def)
  note th = rollback_restores[of updatedWorld "''s1''" quietEnv]
  have ok: "fst (rollback quietEnv ''s1'' updatedWorld) = Ok ()"
    using th[THEN conjunct2, THEN conjunct2, rule_format, OF pre3] .
  then have run: "rollback quietEnv ''s1'' updatedWorld = (Ok (), ?w')" by (simp add: prod_eq_iff)
  have pre2: "servers updatedWorld ''s1'' = Some updatedServer \<and> preUpdateBackupId updatedServer = Some ''backup-1''
      \<and> ''backup-1'' \<noteq> []
      \<and> (\<exists>h \<in> set (historyTable updatedWorld). h_serverId h = ''s1'' \<and> h_backupId h = Some ''backup-1'')
      \<and> rollback quietEnv ''s1'' updatedWorld = (Ok (), ?w')"
    using sv bk tab hh run by simp
  from th[THEN conjunct2, THEN conjunct1, rule_format, OF pre2]
  obtain hid h where r: "hid < length (historyTable updatedWorld)" "historyTable updatedWorld ! hid = h"
    "servers ?w' = (servers updatedWorld)(''s1'' \<mapsto> updatedServer\<lparr>version := h_fromVersion h, preUpdateBackupId := None\<rparr>)"
    "historyTable ?w' = (historyTable updatedWorld)[hid := h\<lparr>h_status := rolled_back\<rparr>]"
    by blast
  have "hid = 0" "h = updatedHistory" using r(1,2) tab by simp_all
  then have "servers ?w' ''s1'' = Some (updatedServer\<lparr>version := ''1.0'', preUpdateBackupId := None\<rparr>)"
    "historyTable ?w' = [updatedHistory\<lparr>h_status := rolled_back\<rparr>]"
    using r(3,4) tab hh by simp_all
  then show ?thesis using sv bk ok by simp
qed

section \<open>What the pipeline may change\<close>

subsection \<open>Rules for rel\<close>

lemma relI: "(\<And>s r s'. m s = (r, s') \<Longrightarrow> R s s') \<Longrightarrow> rel R m"
  by (simp add: rel_def)

lemma relD: "rel R m \<Longrightarrow> m s = (r, s') \<Longrightarrow> R s s'"
  by (simp add: rel_def)

lemma preorder_refl: "isPreorder R \<Longrightarrow> R s s"
  by (simp add: isPreorder_def)

lemma preorder_trans: "isPreorder R \<Longrightarrow> R a b \<Longrightarrow> R b c \<Longrightarrow> R a c"
  unfolding isPreorder_def by blast

lemma rel_returnM: "isPreorder R \<Longrightarrow> rel R (returnM x)"
  by (simp add: rel_def returnM_def preorder_refl)

lemma rel_throwM: "isPreorder R \<Longrightarrow> rel R (throwM e)"
  by (simp add: rel_def throwM_def preorder_refl)

lemma rel_bindM:
  assumes "isPreorder R" and "rel R m" and "\<And>x. rel R (f x)"
  shows "rel R (bindM m f)"
proof (rule relI)
  fix s r s' assume h: "bindM m f s = (r, s')"
  obtain r1 s1 where m: "m s = (r1, s1)" by (cases "m s")
  have a: "R s s1" using relD[OF assms(2) m] .
  show "R s s'"
  proof (cases r1)
    case (Ok x)
    then have "f x s1 = (r, s')" using h m by (simp add: bindM_def)
    then have "R s1 s'" using relD[OF assms(3)] by blast
    then show ?thesis using preorder_trans[OF assms(1) a] by blast
  next
    case (Throw e)
    then have "s' = s1" using h m by (simp add: bindM_def)
    then show ?thesis using a by simp
  qed
qed

lemma rel_thenM: "isPreorder R \<Longrightarrow> rel R m \<Longrightarrow> rel R n \<Longrightarrow> rel R (thenM m n)"
  unfolding thenM_def by (rule rel_bindM)

lemma rel_tryCatch:
  assumes "isPreorder R" and "rel R m" and "\<And>e. rel R (h e)"
  shows "rel R (tryCatch m h)"
proof (rule relI)
  fix s r s' assume h: "tryCatch m h s = (r, s')"
  obtain r1 s1 where m: "m s = (r1, s1)" by (cases "m s")
  have a: "R s s1" using relD[OF assms(2) m] .
  show "R s s'"
  proof (cases r1)
    case (Ok x)
    then have "s' = s1" using h m by (simp add: tryCatch_def)
    then show ?thesis using a by simp
  next
    case (Throw e)
    then have "h e s1 = (r, s')" using h m by (simp add: tryCatch_def)
    then have "R s1 s'" using relD[OF assms(3)] by blast
    then show ?thesis using preorder_trans[OF assms(1) a] by blast
  qed
qed

lemma rel_whenM: "isPreorder R \<Longrightarrow> (b \<Longrightarrow> rel R m) \<Longrightarrow> rel R (whenM b m)"
  by (simp add: whenM_def rel_returnM)

lemma rel_seqM_Nil: "isPreorder R \<Longrightarrow> rel R (seqM [])"
  by (simp add: rel_returnM)

lemma rel_seqM_Cons: "isPreorder R \<Longrightarrow> rel R m \<Longrightarrow> rel R (seqM ms) \<Longrightarrow> rel R (seqM (m # ms))"
  by (simp add: rel_thenM)

lemma rel_forM: "isPreorder R \<Longrightarrow> (\<And>x. rel R (f x)) \<Longrightarrow> rel R (forM xs f)"
  by (induction xs) (simp_all add: rel_returnM rel_thenM)

text \<open>A statement that first reads the state.\<close>

lemma rel_reading: "(\<And>v. rel R (f v)) \<Longrightarrow> rel R (\<lambda>w. f (g w) w)"
  by (simp add: rel_def)

lemma rel_if: "rel R m \<Longrightarrow> rel R n \<Longrightarrow> rel R (\<lambda>w. if c w then m w else n w)"
  by (simp add: rel_def)

lemma rel_modifyM: "(\<And>w. R w (f w)) \<Longrightarrow> rel R (modifyM f)"
  by (simp add: rel_def modifyM_def)

subsection \<open>The file system respects every closed relation\<close>

lemma fsClosed_pre: "fsClosed R \<Longrightarrow> isPreorder R"
  by (simp add: fsClosed_def)

lemma rel_fsCall: "fsClosed R \<Longrightarrow> rel R (fsCall env f)"
proof (rule relI)
  fix s r s' assume c: "fsClosed R" and h: "fsCall env f s = (r, s')"
  have a: "R s (s\<lparr>fsClock := Suc (fsClock s)\<rparr>)" using c by (simp add: fsClosed_def)
  have b: "\<And>d. R (s\<lparr>fsClock := Suc (fsClock s)\<rparr>) (s\<lparr>fsClock := Suc (fsClock s), disk := d\<rparr>)"
    using c unfolding fsClosed_def by blast
  have "s' = s\<lparr>fsClock := Suc (fsClock s)\<rparr> \<or> (\<exists>d. s' = s\<lparr>fsClock := Suc (fsClock s), disk := d\<rparr>)"
    using h by (auto simp add: fsCall_def Let_def split: option.splits sum.splits)
  then show "R s s'" using a b preorder_trans[OF fsClosed_pre[OF c] a] by auto
qed

lemma rel_sleep: "fsClosed R \<Longrightarrow> rel R (sleep n)"
  by (simp add: rel_def sleep_def logCall_def modifyM_def fsClosed_def)

lemma rel_fs_remove: "fsClosed R \<Longrightarrow> rel R (fs_remove env p)"
  unfolding fs_remove_def
  by (intro rel_thenM rel_fsCall fsClosed_pre) (simp_all add: rel_def logCall_def modifyM_def fsClosed_def)

lemma rel_fs_ensureDir: "fsClosed R \<Longrightarrow> rel R (fs_ensureDir env p)"
  unfolding fs_ensureDir_def by (rule rel_fsCall)

lemma rel_fs_copy: "fsClosed R \<Longrightarrow> rel R (fs_copy env p q)"
  unfolding fs_copy_def by (rule rel_fsCall)

lemma rel_fs_readdir: "fsClosed R \<Longrightarrow> rel R (fs_readdir env p)"
  by (auto simp add: rel_def fs_readdir_def Let_def fsClosed_def split: option.splits node.splits)

lemma rel_findFilesRecursive: "fsClosed R \<Longrightarrow> rel R (findFilesRecursive env p)"
  by (auto simp add: rel_def findFilesRecursive_def fsClosed_def isPreorder_def split: option.splits prod.splits)

lemma rel_copyIfExists: "fsClosed R \<Longrightarrow> rel R (copyIfExists env d)"
  using rel_fs_copy[of R env "fst d" "snd d"]
  by (auto simp add: rel_def copyIfExists_def returnM_def fsClosed_def isPreorder_def)

lemma rel_removeLoop: "fsClosed R \<Longrightarrow> rel R (removeLoop env p M d a)"
proof (rule relI)
  fix s r s' assume c: "fsClosed R" and h: "removeLoop env p M d a s = (r, s')"
  from h show "R s s'"
  proof (induction env p M d a s arbitrary: r s' rule: removeLoop.induct)
    case (1 env p M d a w)
    note unf = removeLoop.simps[of env p M d a w]
    obtain r1 w1 where f: "fs_remove env p w = (r1, w1)" by (cases "fs_remove env p w")
    have a: "R w w1" using relD[OF rel_fs_remove[OF c] f] .
    show ?case
    proof (cases "a \<le> M")
      case False
      then show ?thesis using "1.prems" unf preorder_refl[OF fsClosed_pre[OF c]] by simp
    next
      case True
      show ?thesis
      proof (cases r1)
        case (Ok u)
        then show ?thesis using "1.prems" unf True f a by simp
      next
        case (Throw e)
        show ?thesis
        proof (cases "isLockedError e \<and> a < M")
          case False
          then show ?thesis using "1.prems" unf True f a Throw by auto
        next
          case T2: True
          obtain r2 w2 where sl: "sleep d w1 = (r2, w2)" by (cases "sleep d w1")
          have b: "R w1 w2" using relD[OF rel_sleep[OF c] sl] .
          have "removeLoop env p M d (Suc a) w2 = (r, s')"
            using "1.prems" unf True f Throw T2 sl by simp
          then have "R w2 s'"
            using "1.IH"[OF True f[symmetric] Throw T2 sl[symmetric]] by simp
          then show ?thesis using a b preorder_trans[OF fsClosed_pre[OF c]] by blast
        qed
      qed
    qed
  qed
qed

lemma rel_removeWithRetry: "fsClosed R \<Longrightarrow> rel R (removeWithRetry env p M d)"
  unfolding removeWithRetry_def by (rule rel_removeLoop)

lemma rel_identifyPreservedPaths: "fsClosed R \<Longrightarrow> rel R (identifyPreservedPaths env p)"
  unfolding identifyPreservedPaths_def Let_def
  by (intro rel_bindM rel_tryCatch rel_findFilesRecursive rel_returnM fsClosed_pre)

lemma rel_preserveFiles: "fsClosed R \<Longrightarrow> rel R (preserveFiles env p pp)"
  unfolding preserveFiles_def Let_def
  by (intro rel_thenM rel_seqM_Cons rel_seqM_Nil rel_forM rel_if rel_fs_ensureDir rel_fs_copy
        rel_copyIfExists rel_returnM fsClosed_pre)

lemma rel_restorePreservedFiles: "fsClosed R \<Longrightarrow> rel R (restorePreservedFiles env t p)"
  unfolding restorePreservedFiles_def Let_def
  by (intro rel_thenM rel_seqM_Cons rel_seqM_Nil rel_forM rel_if rel_bindM rel_fs_ensureDir rel_fs_copy
        rel_findFilesRecursive rel_fs_remove rel_copyIfExists rel_returnM fsClosed_pre)

lemma frameRel_preorder: "isPreorder (frameRel ref)"
  unfolding isPreorder_def frameRel_def by (auto intro: prefix_order.trans)

lemma pipeRel_preorder: "isPreorder (pipeRel ref hid)"
  unfolding isPreorder_def
proof (intro conjI allI impI)
  fix s show "pipeRel ref hid s s"
    by (simp add: pipeRel_def frameRel_def idleRel_def)
next
  fix a b c assume ab: "pipeRel ref hid a b" and bc: "pipeRel ref hid b c"
  have f: "frameRel ref a c"
    using ab bc preorder_trans[OF frameRel_preorder] by (auto simp add: pipeRel_def)
  obtain n1 where n1: "calls b = calls a @ n1" using ab by (auto simp add: pipeRel_def frameRel_def prefix_def)
  obtain n2 where n2: "calls c = calls b @ n2" using bc by (auto simp add: pipeRel_def frameRel_def prefix_def)
  obtain e1 where e1: "events b = events a @ e1" using ab by (auto simp add: pipeRel_def frameRel_def prefix_def)
  obtain e2 where e2: "events c = events b @ e2" using bc by (auto simp add: pipeRel_def frameRel_def prefix_def)
  have wr: "wasRunning (heap b ref) = wasRunning (heap a ref)"
    and len: "length (historyTable b) = length (historyTable a)"
    using ab by (simp_all add: pipeRel_def frameRel_def)
  have "idleRel ref hid a c"
    using ab bc n1 n2 e1 e2 wr len
    by (auto simp add: pipeRel_def idleRel_def)
  then show "pipeRel ref hid a c" using f by (simp add: pipeRel_def)
qed

lemma frameRel_fsClosed: "fsClosed (frameRel ref)"
  unfolding fsClosed_def by (simp add: frameRel_preorder) (simp add: frameRel_def)

lemma pipeRel_fsClosed: "fsClosed (pipeRel ref hid)"
  unfolding fsClosed_def
  by (simp add: pipeRel_preorder) (simp add: pipeRel_def frameRel_def idleRel_def isProcessCall_def)

lemmas prim_defs = setSession_def sessions_set_def emit_def logCall_def server_update_def history_update_def
  updateSessionStatus_def updateHistoryStatus_def stopServer_def startServer_def createBackup_def
  restoreBackup_def notify_def getGameVersion_def startDownload_def cancelDownload_def sleep_def

lemmas rel_defs = rel_def pipeRel_def frameRel_def idleRel_def isProcessCall_def isRestartEvent_def

lemma rel_when_reading: "isPreorder R \<Longrightarrow> rel R m \<Longrightarrow> rel R (\<lambda>w. whenM (c w) m w)"
  by (simp add: rel_def whenM_def returnM_def isPreorder_def)

text \<open>The steps guarded by \<open>wasRunning\<close>.\<close>

lemma rel_guard:
  "rel (frameRel ref) m \<Longrightarrow> rel (pipeRel ref hid) (\<lambda>w. whenM (wasRunning (heap w ref)) m w)"
  using preorder_refl[OF pipeRel_preorder]
  by (auto simp add: rel_def pipeRel_def idleRel_def whenM_def returnM_def)

lemma fr_updateSessionStatus: "rel (frameRel ref) (updateSessionStatus ref st p msg)"
  by (simp add: rel_def frameRel_def prim_defs monad_defs)

lemma fr_updateHistoryStatus: "rel (frameRel ref) (updateHistoryStatus hid st err)"
  by (simp add: rel_def frameRel_def prim_defs monad_defs)

lemma fr_stopServer: "rel (frameRel ref) (\<lambda>w. stopServer env (g w) w)"
  by (auto simp add: rel_def frameRel_def prim_defs monad_defs split: option.splits)

lemma fr_startServer: "rel (frameRel ref) (\<lambda>w. startServer env (g w) w)"
  by (auto simp add: rel_def frameRel_def prim_defs monad_defs split: option.splits)

lemma pr_stopBlock:
  "rel (pipeRel ref hid) (\<lambda>w. whenM (wasRunning (heap w ref))
          (seqM
            [updateSessionStatus ref stopping 5 ''Stopping server...'',
             updateHistoryStatus hid stopping None,
             whenM (hasServerService env)
               (seqM [(\<lambda>w. stopServer env (serverId (heap w ref)) w), sleep 2000])]) w)"
  by (rule rel_guard)
     (intro rel_seqM_Cons rel_seqM_Nil rel_whenM fr_updateSessionStatus fr_updateHistoryStatus
        fr_stopServer rel_sleep frameRel_fsClosed frameRel_preorder)

lemma pr_startBlock:
  "rel (pipeRel ref hid) (\<lambda>w. whenM (wasRunning (heap w ref))
          (seqM
            [updateSessionStatus ref starting 90 ''Starting server...'',
             updateHistoryStatus hid starting None,
             whenM (hasServerService env) (\<lambda>w. startServer env (serverId (heap w ref)) w)]) w)"
  by (rule rel_guard)
     (intro rel_seqM_Cons rel_seqM_Nil rel_whenM fr_updateSessionStatus fr_updateHistoryStatus
        fr_startServer frameRel_preorder)

lemma pr_updateSessionStatus:
  "\<not> isRestartStatus st \<Longrightarrow> rel (pipeRel ref hid) (updateSessionStatus ref st p msg)"
  by (simp add: rel_defs prim_defs monad_defs)

lemma pr_updateHistoryStatus:
  "\<not> isRestartStatus st \<Longrightarrow> rel (pipeRel ref hid) (updateHistoryStatus hid st err)"
  by (simp add: rel_defs prim_defs monad_defs)

lemma pr_history_update:
  "(\<And>h. h_status (f h) = h_status h) \<Longrightarrow> rel (pipeRel ref hid) (history_update hid f)"
  by (simp add: rel_defs prim_defs monad_defs)

lemma pr_server_update: "rel (pipeRel ref hid) (\<lambda>w. server_update (g w) (f w) w)"
  by (auto simp add: rel_defs prim_defs monad_defs split: option.splits)

lemma pr_setSession:
  assumes "\<And>s. sessionId (f s) = sessionId s \<and> serverId (f s) = serverId s \<and> wasRunning (f s) = wasRunning s
        \<and> (status (f s) = status s \<or> \<not> isRestartStatus (status (f s)))"
  shows "rel (pipeRel ref hid) (setSession r f)"
proof (rule relI)
  fix s r0 s' assume "setSession r f s = (r0, s')"
  then have s': "s' = s\<lparr>heap := (heap s)(r := f (heap s r))\<rparr>"
    by (simp add: setSession_def modifyM_def)
  note a = assms[of "heap s r"]
  show "pipeRel ref hid s s'"
    unfolding s' using a by (cases "r = ref") (auto simp add: pipeRel_def frameRel_def idleRel_def)
qed

lemma pr_sessions_set: "rel (pipeRel ref hid) (sessions_set r)"
  by (simp add: rel_defs prim_defs monad_defs)

lemma pr_createBackup: "rel (pipeRel ref hid) (\<lambda>w. createBackup env (g w) (l w) w)"
  by (auto simp add: rel_defs prim_defs monad_defs split: sum.splits)

lemma pr_startDownload: "rel (pipeRel ref hid) (startDownload env p)"
  by (auto simp add: rel_defs prim_defs monad_defs split: sum.splits)

lemma pr_notify: "rel (pipeRel ref hid) (notify k n)"
  by (simp add: rel_defs prim_defs monad_defs)

lemma pr_emit: "(\<And>w. \<not> isRestartEvent (E w)) \<Longrightarrow> rel (pipeRel ref hid) (\<lambda>w. emit (E w) w)"
  by (simp add: rel_defs prim_defs monad_defs)

lemma pr_jarCheck:
  "rel (pipeRel ref hid) (\<lambda>w. if c w then returnM () w else throwM e w)"
  by (intro rel_if rel_returnM rel_throwM pipeRel_preorder)

lemma pr_cancelUpdate: "rel (pipeRel ref hid) (cancelUpdate env sid)"
proof (rule relI)
  fix s r s' assume h: "cancelUpdate env sid s = (r, s')"
  show "pipeRel ref hid s s'"
  proof (cases "sessions s sid")
    case None
    then show ?thesis using h preorder_refl[OF pipeRel_preorder] by (simp add: cancelUpdate_def)
  next
    case (Some r')
    show ?thesis
    proof (cases "status (heap s r') = completed \<or> status (heap s r') = failed")
      case True
      then show ?thesis using h Some preorder_refl[OF pipeRel_preorder] by (auto simp add: cancelUpdate_def)
    next
      case False
      let ?m = "seqM
            [(\<lambda>w. case downloadSessionId (heap w r') of
                     Some dl \<Rightarrow> whenM (dl \<noteq> []) (cancelDownload dl) w
                   | None \<Rightarrow> returnM () w),
             (\<lambda>w. case tempPreservePath (heap w r') of
                     Some t \<Rightarrow>
                       whenM (t \<noteq> [] \<and> fs_pathExists t w)
                         (tryCatch (fs_remove env t) (\<lambda>err. returnM ())) w
                   | None \<Rightarrow> returnM () w),
             setSession r' (\<lambda>s. s\<lparr>status := failed, error := Some ''Update cancelled by user''\<rparr>),
             modifyM (\<lambda>w. w\<lparr>sessions := (sessions w)(sid \<mapsto> r')\<rparr>),
             (\<lambda>w. server_update (serverId (heap w r')) (\<lambda>sv. sv\<lparr>updateInProgress := False\<rparr>) w),
             (\<lambda>w. emit (UpdateCancelled sid (serverId (heap w r'))) w)]"
      have run: "?m s = (r, s')" using h Some False by (simp add: cancelUpdate_def)
      have l1: "rel (pipeRel ref hid) (\<lambda>w. case downloadSessionId (heap w r') of
                     Some dl \<Rightarrow> whenM (dl \<noteq> []) (cancelDownload dl) w
                   | None \<Rightarrow> returnM () w)"
        by (auto simp add: rel_defs prim_defs monad_defs split: option.splits)
      have l2: "rel (pipeRel ref hid) (\<lambda>w. case tempPreservePath (heap w r') of
                     Some t \<Rightarrow>
                       whenM (t \<noteq> [] \<and> fs_pathExists t w)
                         (tryCatch (fs_remove env t) (\<lambda>err. returnM ())) w
                   | None \<Rightarrow> returnM () w)"
      proof (rule relI)
        fix a ra b
        assume st: "(case tempPreservePath (heap a r') of
                     Some t \<Rightarrow>
                       whenM (t \<noteq> [] \<and> fs_pathExists t a)
                         (tryCatch (fs_remove env t) (\<lambda>err. returnM ())) a
                   | None \<Rightarrow> returnM () a) = (ra, b)"
        have "\<And>t. rel (pipeRel ref hid) (whenM (t \<noteq> [] \<and> fs_pathExists t a) (tryCatch (fs_remove env t) (\<lambda>err. returnM ())))"
          by (intro rel_whenM rel_tryCatch rel_fs_remove rel_returnM pipeRel_fsClosed pipeRel_preorder)
        then show "pipeRel ref hid a b"
          using st preorder_refl[OF pipeRel_preorder]
          by (cases "tempPreservePath (heap a r')") (auto simp add: rel_def returnM_def)
      qed
      have l4: "rel (pipeRel ref hid) (modifyM (\<lambda>w. w\<lparr>sessions := (sessions w)(sid \<mapsto> r')\<rparr>))"
        by (simp add: rel_defs modifyM_def)
      have "rel (pipeRel ref hid) ?m"
        by (intro rel_seqM_Cons rel_seqM_Nil l1 l2 l4 pr_setSession pr_server_update pr_emit pipeRel_preorder)
           (simp_all add: isRestartStatus_def isRestartEvent_def)
      then show ?thesis using run by (rule relD)
    qed
  qed
qed

lemma pr_tick:
  "rel (pipeRel ref hid) (seqM
     [setSession ref (\<lambda>s. s\<lparr>progress := p, message := m\<rparr>),
      sessions_set ref,
      (\<lambda>w. emit (UpdateProgress (sessionId (heap w ref)) (serverId (heap w ref))
                   (status (heap w ref)) (progress (heap w ref)) (message (heap w ref))) w)])"
  by (simp add: rel_defs prim_defs monad_defs)

lemma pr_waitLoop: "rel (pipeRel ref hid) (waitLoop env ref k)"
proof (rule relI)
  fix s r s' assume h: "waitLoop env ref k s = (r, s')"
  note tr = preorder_trans[OF pipeRel_preorder]
  note rf = preorder_refl[OF pipeRel_preorder]
  from h show "pipeRel ref hid s s'"
  proof (induction env ref k s arbitrary: r s' rule: waitLoop.induct)
    case (1 env ref k w)
    note unf = waitLoop.simps[of env ref k w]
    define w1 where "w1 = (if cancelAt env k then snd (cancelUpdate env (sessionId (heap w ref)) w) else w)"
    have a: "pipeRel ref hid w w1"
      using relD[OF pr_cancelUpdate, of env "sessionId (heap w ref)" w "fst (cancelUpdate env (sessionId (heap w ref)) w)" "snd (cancelUpdate env (sessionId (heap w ref)) w)" ref hid] rf
      by (simp add: w1_def)
    show ?case
    proof (cases "ticksBeforeTimeout env < k")
      case True
      then show ?thesis using "1.prems" unf rf by simp
    next
      case notimeout: False
      show ?thesis
      proof (cases "sessionFailed ref w1")
        case True
        then show ?thesis using "1.prems" unf notimeout a by (simp add: w1_def Let_def)
      next
        case nf: False
        show ?thesis
        proof (cases "poll env k")
          case None
          then show ?thesis using "1.prems" unf notimeout nf a by (simp add: w1_def Let_def)
        next
          case (Some ds)
          define w2 where "w2 = snd (seqM
                     [setSession ref (\<lambda>s. s\<lparr>progress := Math_round (ieee env (45 + ieee env (d_progress ds * 0.25))),
                                            message := Some (DownloadingPercent (d_progress ds))\<rparr>),
                      sessions_set ref,
                      (\<lambda>w. emit (UpdateProgress (sessionId (heap w ref)) (serverId (heap w ref))
                                   (status (heap w ref)) (progress (heap w ref)) (message (heap w ref))) w)] w1)"
          have b: "pipeRel ref hid w1 w2"
            unfolding w2_def by (rule relD[OF pr_tick]) (rule prod.collapse[symmetric])
          have ab: "pipeRel ref hid w w2" using tr[OF a b] .
          show ?thesis
          proof (cases "d_status ds = ''complete'' \<or> d_status ds = ''failed''")
            case True
            then have "s' = w2" using "1.prems" unf notimeout nf Some
              by (auto simp add: w1_def w2_def Let_def)
            then show ?thesis using ab by simp
          next
            case False
            then have "waitLoop env ref (Suc k) w2 = (r, s')"
              using "1.prems" unf notimeout nf Some by (simp add: w1_def w2_def Let_def)
            then have "pipeRel ref hid w2 s'"
              using "1.IH"[OF notimeout w1_def nf Some refl refl w2_def] False by simp
            then show ?thesis using tr[OF ab] by blast
          qed
        qed
      qed
    qed
  qed
qed

lemma pr_waitForDownload: "rel (pipeRel ref hid) (waitForDownload env dl ref)"
  unfolding waitForDownload_def by (rule pr_waitLoop)

lemma pr_untilPreserved: "rel (pipeRel ref hid) (untilPreserved env server ref hid)"
  unfolding untilPreserved_def
  by (intro rel_thenM rel_seqM_Cons rel_seqM_Nil rel_bindM rel_whenM pr_stopBlock pr_updateSessionStatus
        pr_updateHistoryStatus pr_createBackup pr_setSession pr_server_update pr_history_update
        rel_identifyPreservedPaths rel_preserveFiles pipeRel_fsClosed pipeRel_preorder)
     (simp_all add: isRestartStatus_def)

lemma pr_untilRestored: "rel (pipeRel ref hid) (untilRestored env server ref hid t)"
  unfolding untilRestored_def Let_def
  by (intro rel_thenM rel_seqM_Cons rel_seqM_Nil rel_bindM rel_whenM rel_when_reading rel_forM
        pr_updateSessionStatus pr_updateHistoryStatus pr_setSession pr_sessions_set
        pr_startDownload pr_waitForDownload pr_jarCheck rel_fs_readdir rel_removeWithRetry
        rel_restorePreservedFiles pipeRel_fsClosed pipeRel_preorder)
     (simp_all add: isRestartStatus_def)

lemma pr_afterRestored: "rel (pipeRel ref hid) (afterRestored env server ref hid)"
  unfolding afterRestored_def
  by (intro rel_seqM_Cons rel_seqM_Nil rel_whenM pr_startBlock pr_updateSessionStatus
        pr_updateHistoryStatus pr_server_update pr_history_update pr_emit pr_notify pipeRel_preorder)
     (simp_all add: isRestartStatus_def isRestartEvent_def)

lemma pr_failureHandler: "rel (pipeRel ref hid) (failureHandler env server ref hid tmp e)"
proof -
  have c: "rel (pipeRel ref hid) (case tmp of
           Some t \<Rightarrow> whenM (t \<noteq> []) (tryCatch (fs_remove env t) (\<lambda>cleanupError. returnM ()))
         | None \<Rightarrow> returnM ())"
    by (cases tmp)
       (auto intro!: rel_whenM rel_tryCatch rel_fs_remove rel_returnM pipeRel_fsClosed pipeRel_preorder)
  show ?thesis
    unfolding failureHandler_def
    by (intro rel_seqM_Cons rel_seqM_Nil rel_whenM c pr_updateHistoryStatus pr_setSession pr_sessions_set
          pr_server_update pr_emit pr_notify pipeRel_preorder)
       (simp_all add: isRestartStatus_def isRestartEvent_def)
qed

lemma pr_executeUpdatePipeline: "rel (pipeRel ref hid) (executeUpdatePipeline env ref hid)"
proof (rule relI)
  fix s r s' assume h: "executeUpdatePipeline env ref hid s = (r, s')"
  note tr = preorder_trans[OF pipeRel_preorder]
  note rf = preorder_refl[OF pipeRel_preorder]
  show "pipeRel ref hid s s'"
  proof (cases "servers s (serverId (heap s ref))")
    case None
    then show ?thesis using h rf by (simp add: executeUpdatePipeline_def)
  next
    case (Some server)
    obtain r1 w1 where s1: "untilPreserved env server ref hid s = (r1, w1)" by (cases "untilPreserved env server ref hid s")
    have a1: "pipeRel ref hid s w1" using relD[OF pr_untilPreserved s1] .
    show ?thesis
    proof (cases r1)
      case (Throw e)
      then have "failureHandler env server ref hid None e w1 = (r, s')"
        using h Some s1 by (simp add: executeUpdatePipeline_def tryBlock_def)
      then show ?thesis using tr[OF a1 relD[OF pr_failureHandler]] by blast
    next
      case (Ok t)
      obtain r2 w2 where s2: "untilRestored env server ref hid t w1 = (r2, w2)" by (cases "untilRestored env server ref hid t w1")
      have a2: "pipeRel ref hid s w2" using tr[OF a1 relD[OF pr_untilRestored s2]] .
      show ?thesis
      proof (cases r2)
        case Throw2: (Throw e)
        then have "failureHandler env server ref hid (Some t) e w2 = (r, s')"
          using h Some s1 Ok s2 by (simp add: executeUpdatePipeline_def tryBlock_def)
        then show ?thesis using tr[OF a2 relD[OF pr_failureHandler]] by blast
      next
        case Ok2: (Ok u)
        obtain r3 w3 where s3: "afterRestored env server ref hid w2 = (r3, w3)" by (cases "afterRestored env server ref hid w2")
        have a3: "pipeRel ref hid s w3" using tr[OF a2 relD[OF pr_afterRestored s3]] .
        show ?thesis
        proof (cases r3)
          case Throw3: (Throw e)
          then have "failureHandler env server ref hid None e w3 = (r, s')"
            using h Some s1 Ok s2 Ok2 s3 by (simp add: executeUpdatePipeline_def tryBlock_def)
          then show ?thesis using tr[OF a3 relD[OF pr_failureHandler]] by blast
        next
          case Ok3: (Ok v)
          then have "s' = w3" using h Some s1 Ok s2 Ok2 s3 by (simp add: executeUpdatePipeline_def tryBlock_def)
          then show ?thesis using a3 by simp
        qed
      qed
    qed
  qed
qed

section \<open>The failure handler\<close>

lemma pr_tryBlock:
  assumes "tryBlock env server ref hid s = ((r, tmp), s1)"
  shows "pipeRel ref hid s s1"
proof -
  note tr = preorder_trans[OF pipeRel_preorder]
  obtain r1 w1 where s1: "untilPreserved env server ref hid s = (r1, w1)" by (cases "untilPreserved env server ref hid s")
  have a1: "pipeRel ref hid s w1" using relD[OF pr_untilPreserved s1] .
  show ?thesis
  proof (cases r1)
    case (Throw e)
    then show ?thesis using assms s1 a1 by (simp add: tryBlock_def)
  next
    case (Ok t)
    obtain r2 w2 where s2: "untilRestored env server ref hid t w1 = (r2, w2)" by (cases "untilRestored env server ref hid t w1")
    have a2: "pipeRel ref hid s w2" using tr[OF a1 relD[OF pr_untilRestored s2]] .
    show ?thesis
    proof (cases r2)
      case (Throw e)
      then show ?thesis using assms s1 Ok s2 a2 by (simp add: tryBlock_def)
    next
      case Ok2: (Ok u)
      obtain r3 w3 where s3: "afterRestored env server ref hid w2 = (r3, w3)" by (cases "afterRestored env server ref hid w2")
      have a3: "pipeRel ref hid s w3" using tr[OF a2 relD[OF pr_afterRestored s3]] .
      show ?thesis using assms s1 Ok s2 Ok2 s3 a3 by (simp add: tryBlock_def)
    qed
  qed
qed

text \<open>The cleanup of the failure handler always returns and touches the disk only.\<close>

lemma handler_cleanup:
  "\<exists>w2. (case tmp of
           Some t \<Rightarrow> whenM (t \<noteq> []) (tryCatch (fs_remove env t) (\<lambda>cleanupError. returnM ()))
         | None \<Rightarrow> returnM ()) w1 = (Ok (), w2)
     \<and> heap w2 = heap w1 \<and> sessions w2 = sessions w1 \<and> servers w2 = servers w1
     \<and> events w2 = events w1 \<and> historyTable w2 = historyTable w1
     \<and> (\<forall>t. tmp = Some t \<and> t \<noteq> [] \<and> fsFault env (fsClock w1) = None \<longrightarrow> \<not> fs_pathExists t w2)"
proof (cases tmp)
  case None
  then show ?thesis by (simp add: returnM_def)
next
  case (Some t)
  show ?thesis
  proof (cases "t = []")
    case True
    then show ?thesis using Some by (simp add: monad_defs)
  next
    case False
    obtain r w2 where fr: "fs_remove env t w1 = (r, w2)" by (cases "fs_remove env t w1")
    have same: "heap w2 = heap w1" "sessions w2 = sessions w1" "servers w2 = servers w1" "events w2 = events w1"
      "historyTable w2 = historyTable w1"
      using fr by (auto simp add: fs_remove_def fsCall_def logCall_def monad_defs Let_def split: option.splits)
    have gone: "fsFault env (fsClock w1) = None \<longrightarrow> \<not> fs_pathExists t w2"
    proof
      assume "fsFault env (fsClock w1) = None"
      then have "r = Ok ()" using fr
        by (auto simp add: fs_remove_def fsCall_def logCall_def monad_defs Let_def split: option.splits)
      then show "\<not> fs_pathExists t w2" using fs_remove_gone[of t env w1 w2] fr False by simp
    qed
    have "tryCatch (fs_remove env t) (\<lambda>err. returnM ()) w1 = (Ok (), w2)"
      using fr by (cases r) (simp_all add: tryCatch_def returnM_def)
    then show ?thesis using same gone Some False by (simp add: whenM_def)
  qed
qed

lemmas run_defs = executeUpdatePipeline_def tryBlock_def untilPreserved_def untilRestored_def afterRestored_def
  failureHandler_def identifyPreservedPaths_def preserveFiles_def restorePreservedFiles_def
  findFilesRecursive_def copyIfExists_def tempPathOf_def waitForDownload_def waitLoop.simps
  removeWithRetry_def removeLoop.simps fs_remove_def fs_ensureDir_def fs_copy_def fs_readdir_def fsCall_def
  fs_pathExists_def copy_at_def sessionFailed_def Math_round_def jsonName_def decimal.simps
  prim_defs monad_defs Let_def Error_def newJar_def

lemmas world_defs = startedWorld_def startedSession_def startedHistory_def demoWorld_def demoDisk_def
  demoServer_def emptyWorld_def blankSession_def installEnv_def quietEnv_def

lemma demo_run: "executeUpdatePipeline installEnv 0 0 startedWorld = (Ok (), completedWorld)"
  by (simp add: run_defs world_defs completedWorld_def)

text \<open>
  The lookup of the server record stands before the \<open>try\<close>: when the record is gone the
  pipeline throws \<open>Server not found\<close> past the handler, and the session and the history
  record stay pending with no \<open>update:failed\<close> event.
\<close>

lemma pipeline_lookup_failure:
  "servers lostServerWorld (serverId (heap lostServerWorld 0)) = None
   \<and> executeUpdatePipeline installEnv 0 0 lostServerWorld = (Throw (Error ''Server not found''), lostServerWorld)
   \<and> status (heap lostServerWorld 0) = pending
   \<and> h_status (historyTable lostServerWorld ! 0) = pending
   \<and> events lostServerWorld = []"
  by (simp add: executeUpdatePipeline_def lostServerWorld_def startedWorld_def startedSession_def
      startedHistory_def blankSession_def demoWorld_def emptyWorld_def)

text \<open>
  When the server record and the history record exist and a stage inside the \<open>try\<close> block
  throws, the handler runs to its end and the pipeline returns normally with: the session
  failed and in the session map, the error's message on the session and (when not empty)
  on the history record, whose status is failed; the server's \<open>updateInProgress\<close> flag
  false; \<open>update:failed\<close> emitted last. The handler removes only the directory held by the
  local \<open>tempPreservePath\<close> when the stage threw, and a failure of that removal changes
  nothing of the rest.
\<close>

lemma handler_after_throw:
  assumes "servers w (serverId (heap w ref)) = Some server" and "hid < length (historyTable w)"
    and "tryBlock env server ref hid w = ((Throw e, tmp), w1)"
  shows "\<exists>w'. executeUpdatePipeline env ref hid w = (Ok (), w')
     \<and> status (heap w' ref) = failed \<and> error (heap w' ref) = Some (err_message e)
     \<and> sessions w' (sessionId (heap w ref)) = Some ref
     \<and> h_status (historyTable w' ! hid) = failed
     \<and> h_error (historyTable w' ! hid) = (if err_message e = [] then None else Some (err_message e))
     \<and> (\<exists>sv. servers w' (serverId (heap w ref)) = Some sv \<and> \<not> updateInProgress sv)
     \<and> events w' = events w1 @ [UpdateFailed (sessionId (heap w ref)) (serverId (heap w ref)) (err_message e)]
     \<and> (\<forall>t. tmp = Some t \<and> t \<noteq> [] \<and> fsFault env (fsClock w1) = None \<longrightarrow> \<not> fs_pathExists t w')"
proof -
  have p: "pipeRel ref hid w w1" using pr_tryBlock[OF assms(3)] .
  have ids: "sessionId (heap w1 ref) = sessionId (heap w ref)" "serverId (heap w1 ref) = serverId (heap w ref)"
    and len: "hid < length (historyTable w1)"
    and srv: "servers w1 (serverId (heap w ref)) \<noteq> None"
    using p assms(1,2) by (auto simp add: pipeRel_def frameRel_def)
  from srv obtain sv1 where sv1: "servers w1 (serverId (heap w ref)) = Some sv1" by auto
  from handler_cleanup[where tmp=tmp and env=env and ?w1.0=w1] obtain w2 where
    c: "(case tmp of
           Some t \<Rightarrow> whenM (t \<noteq> []) (tryCatch (fs_remove env t) (\<lambda>cleanupError. returnM ()))
         | None \<Rightarrow> returnM ()) w1 = (Ok (), w2)"
    and same: "heap w2 = heap w1" "sessions w2 = sessions w1" "servers w2 = servers w1"
      "events w2 = events w1" "historyTable w2 = historyTable w1"
    and gone: "\<forall>t. tmp = Some t \<and> t \<noteq> [] \<and> fsFault env (fsClock w1) = None \<longrightarrow> \<not> fs_pathExists t w2"
    by blast
  let ?rest = "seqM
       [setSession ref (\<lambda>s. s\<lparr>status := failed, error := Some (err_message e)\<rparr>),
        sessions_set ref,
        updateHistoryStatus hid failed (Some (err_message e)),
        (\<lambda>w. server_update (serverId (heap w ref)) (\<lambda>sv. sv\<lparr>updateInProgress := False\<rparr>) w),
        (\<lambda>w. emit (UpdateFailed (sessionId (heap w ref)) (serverId (heap w ref)) (err_message e)) w),
        whenM (hasDiscordService env) (notify ''server_update_failed'' (name server))]"
  have hd: "failureHandler env server ref hid tmp e w1 = ?rest w2"
    using c by (simp add: failureHandler_def thenM_def bindM_def)
  obtain w' where rest: "?rest w2 = (Ok (), w')"
    and post: "status (heap w' ref) = failed" "error (heap w' ref) = Some (err_message e)"
      "sessions w' (sessionId (heap w ref)) = Some ref"
      "h_status (historyTable w' ! hid) = failed"
      "h_error (historyTable w' ! hid) = (if err_message e = [] then None else Some (err_message e))"
      "servers w' (serverId (heap w ref)) = Some (sv1\<lparr>updateInProgress := False\<rparr>)"
      "events w' = events w1 @ [UpdateFailed (sessionId (heap w ref)) (serverId (heap w ref)) (err_message e)]"
      "disk w' = disk w2"
    using same ids len sv1
    by (cases "hasDiscordService env") (simp_all add: prim_defs monad_defs truthy_def)
  have run: "executeUpdatePipeline env ref hid w = (Ok (), w')"
    using assms(1,3) hd rest by (simp add: executeUpdatePipeline_def)
  have pe: "\<And>t. fs_pathExists t w' = fs_pathExists t w2" using post(8) by (simp add: fs_pathExists_def)
  show ?thesis
    apply (rule exI[of _ w'])
    using run post gone pe by simp
qed

text \<open>
  C1 fails on the code. \<open>preserveFiles\<close> creates the temp-preserve directory first and copies
  into it afterwards, and the pipeline assigns the local \<open>tempPreservePath\<close> only when
  \<open>preserveFiles\<close> has returned. When a copy inside \<open>preserveFiles\<close> throws, here the copy of
  \<open>mods\<close> with \<open>ENOSPC\<close> as the sixth call to the file system of the run, the handler finds the
  local still \<open>null\<close>: the session is marked failed, the flag is cleared and \<open>update:failed\<close> is
  emitted, but no removal is attempted and the directory \<open>/srv/.update-preserve-7\<close> that the
  run created, absent before it, stays on the disk.
\<close>

theorem pipeline_copy_failure_leaves_temp:
  "\<not> fs_pathExists [''srv'', ''.update-preserve-7''] startedWorld
   \<and> executeUpdatePipeline copyFailEnv 0 0 startedWorld = (Ok (), copyFailedWorld)
   \<and> status (heap copyFailedWorld 0) = failed
   \<and> tempPreservePath (heap copyFailedWorld 0) = None
   \<and> fs_pathExists [''srv'', ''.update-preserve-7''] copyFailedWorld
   \<and> FsRemove [''srv'', ''.update-preserve-7''] \<notin> set (calls copyFailedWorld)"
proof -
  have run: "executeUpdatePipeline copyFailEnv 0 0 startedWorld = (Ok (), copyFailedWorld)"
    by (simp add: run_defs world_defs copyFailEnv_def copyFailedWorld_def orDefault_def truthy_def)
  have rest: "\<not> fs_pathExists [''srv'', ''.update-preserve-7''] startedWorld"
    "status (heap copyFailedWorld 0) = failed"
    "tempPreservePath (heap copyFailedWorld 0) = None"
    "fs_pathExists [''srv'', ''.update-preserve-7''] copyFailedWorld"
    "FsRemove [''srv'', ''.update-preserve-7''] \<notin> set (calls copyFailedWorld)"
    by (simp_all add: copyFailedWorld_def world_defs fs_pathExists_def)
  show ?thesis using run rest by simp
qed


section \<open>A session that was not running\<close>

text \<open>
  C9. For a pending session with \<open>wasRunning\<close> false, however the run of the pipeline
  ends: no call to \<open>stopServer\<close> or \<open>startServer\<close> is among the calls it adds, no progress
  event of the states \<open>stopping\<close> and \<open>starting\<close> among the events it adds, and the
  session and its history record are in neither state afterwards.
\<close>

theorem idle_session_never_restarts:
  assumes "\<not> wasRunning (heap w ref)" and "status (heap w ref) = pending"
    and "executeUpdatePipeline env ref hid w = (r, w')"
  shows "prefix (calls w) (calls w') \<and> prefix (events w) (events w')
     \<and> (\<forall>c \<in> set (drop (length (calls w)) (calls w')). \<forall>s. c \<noteq> StopServer s \<and> c \<noteq> StartServer s)
     \<and> (\<forall>ev \<in> set (drop (length (events w)) (events w')). \<forall>sess srv p m.
           ev \<noteq> UpdateProgress sess srv stopping p m \<and> ev \<noteq> UpdateProgress sess srv starting p m)
     \<and> status (heap w' ref) \<noteq> stopping \<and> status (heap w' ref) \<noteq> starting
     \<and> (hid < length (historyTable w) \<and> h_status (historyTable w ! hid) = pending
           \<longrightarrow> h_status (historyTable w' ! hid) \<noteq> stopping \<and> h_status (historyTable w' ! hid) \<noteq> starting)"
proof -
  have p: "pipeRel ref hid w w'" using relD[OF pr_executeUpdatePipeline assms(3)] .
  have nr: "\<not> isRestartStatus (status (heap w ref))" using assms(2) by (simp add: isRestartStatus_def)
  have i: "(\<forall>c \<in> set (drop (length (calls w)) (calls w')). \<not> isProcessCall c)
      \<and> (\<forall>ev \<in> set (drop (length (events w)) (events w')). \<not> isRestartEvent ev)
      \<and> \<not> isRestartStatus (status (heap w' ref))
      \<and> (hid < length (historyTable w) \<and> \<not> isRestartStatus (h_status (historyTable w ! hid))
            \<longrightarrow> \<not> isRestartStatus (h_status (historyTable w' ! hid)))"
    using p assms(1) nr by (simp add: pipeRel_def idleRel_def)
  have c1: "\<forall>c \<in> set (drop (length (calls w)) (calls w')). \<forall>s. c \<noteq> StopServer s \<and> c \<noteq> StartServer s"
    using i by (auto simp add: isProcessCall_def)
  have c2: "\<forall>ev \<in> set (drop (length (events w)) (events w')). \<forall>sess srv p m.
           ev \<noteq> UpdateProgress sess srv stopping p m \<and> ev \<noteq> UpdateProgress sess srv starting p m"
    using i by (auto simp add: isRestartEvent_def isRestartStatus_def)
  have c3: "status (heap w' ref) \<noteq> stopping \<and> status (heap w' ref) \<noteq> starting"
    using i by (simp add: isRestartStatus_def)
  have c4: "hid < length (historyTable w) \<and> h_status (historyTable w ! hid) = pending
           \<longrightarrow> h_status (historyTable w' ! hid) \<noteq> stopping \<and> h_status (historyTable w' ! hid) \<noteq> starting"
    using i by (simp add: isRestartStatus_def)
  show ?thesis using p c1 c2 c3 c4 by (simp add: pipeRel_def frameRel_def)
qed

theorem idle_session_never_restarts_witness:
  "\<not> wasRunning (heap startedWorld 0) \<and> status (heap startedWorld 0) = pending
   \<and> prefix (calls startedWorld) (calls (snd (executeUpdatePipeline installEnv 0 0 startedWorld)))
   \<and> status (heap (snd (executeUpdatePipeline installEnv 0 0 startedWorld)) 0) \<noteq> stopping
   \<and> status (heap (snd (executeUpdatePipeline installEnv 0 0 startedWorld)) 0) \<noteq> starting"
proof -
  have h1: "\<not> wasRunning (heap startedWorld 0)" by (simp add: startedWorld_def startedSession_def blankSession_def)
  have h2: "status (heap startedWorld 0) = pending" by (simp add: startedWorld_def startedSession_def blankSession_def)
  have h3: "executeUpdatePipeline installEnv 0 0 startedWorld
     = (fst (executeUpdatePipeline installEnv 0 0 startedWorld), snd (executeUpdatePipeline installEnv 0 0 startedWorld))"
    by simp
  from idle_session_never_restarts[OF h1 h2 h3] h1 h2 show ?thesis by simp
qed

section \<open>Sessions never have the status rolled_back\<close>

lemma soundRel_preorder: "isPreorder (soundRel ref)"
  unfolding isPreorder_def soundRel_def
proof (intro conjI allI impI)
  fix a b c
  assume ab: "nextRef a \<le> nextRef b \<and> (sessionsSound a \<and> ref < nextRef a \<longrightarrow> sessionsSound b)"
    and bc: "nextRef b \<le> nextRef c \<and> (sessionsSound b \<and> ref < nextRef b \<longrightarrow> sessionsSound c)"
  show "nextRef a \<le> nextRef c" using ab bc by linarith
  assume h: "sessionsSound a \<and> ref < nextRef a"
  then have "sessionsSound b \<and> ref < nextRef b" using ab by auto
  then show "sessionsSound c" using bc by blast
qed simp_all

lemma soundRel_fsClosed: "fsClosed (soundRel ref)"
  unfolding fsClosed_def by (simp add: soundRel_preorder) (simp add: soundRel_def sessionsSound_def)

lemmas snd_defs = rel_def soundRel_def sessionsSound_def

lemma sr_updateSessionStatus:
  "st \<noteq> rolled_back \<Longrightarrow> rel (soundRel ref) (updateSessionStatus ref st p msg)"
  by (simp add: snd_defs prim_defs monad_defs)

lemma sr_updateHistoryStatus: "rel (soundRel ref) (updateHistoryStatus hid st err)"
  by (simp add: snd_defs prim_defs monad_defs)

lemma sr_history_update: "rel (soundRel ref) (history_update hid f)"
  by (simp add: snd_defs prim_defs monad_defs)

lemma sr_server_update: "rel (soundRel ref) (\<lambda>w. server_update (g w) (f w) w)"
  by (auto simp add: snd_defs prim_defs monad_defs split: option.splits)

lemma sr_setSession:
  assumes "\<And>s. status s \<noteq> rolled_back \<Longrightarrow> status (f s) \<noteq> rolled_back"
  shows "rel (soundRel ref) (setSession r f)"
proof (rule relI)
  fix s r0 s' assume "setSession r f s = (r0, s')"
  then have s': "s' = s\<lparr>heap := (heap s)(r := f (heap s r))\<rparr>"
    by (simp add: setSession_def modifyM_def)
  note a = assms[of "heap s r"]
  show "soundRel ref s s'"
    unfolding s' using a by (auto simp add: soundRel_def sessionsSound_def)
qed

lemma sr_sessions_set: "rel (soundRel ref) (sessions_set ref)"
  by (simp add: snd_defs prim_defs monad_defs)

lemma sr_stopServer: "rel (soundRel ref) (\<lambda>w. stopServer env (g w) w)"
  by (auto simp add: snd_defs prim_defs monad_defs split: option.splits)

lemma sr_startServer: "rel (soundRel ref) (\<lambda>w. startServer env (g w) w)"
  by (auto simp add: snd_defs prim_defs monad_defs split: option.splits)

lemma sr_restoreBackup: "rel (soundRel ref) (restoreBackup env b)"
  by (auto simp add: snd_defs prim_defs monad_defs split: option.splits)

lemma sr_createBackup: "rel (soundRel ref) (\<lambda>w. createBackup env (g w) (l w) w)"
  by (auto simp add: snd_defs prim_defs monad_defs split: sum.splits)

lemma sr_startDownload: "rel (soundRel ref) (startDownload env p)"
  by (auto simp add: snd_defs prim_defs monad_defs split: sum.splits)

lemma sr_notify: "rel (soundRel ref) (notify k n)"
  by (simp add: snd_defs prim_defs monad_defs)

lemma sr_emit: "rel (soundRel ref) (\<lambda>w. emit (E w) w)"
  by (simp add: snd_defs prim_defs monad_defs)

lemma sr_jarCheck:
  "rel (soundRel ref) (\<lambda>w. if c w then returnM () w else throwM e w)"
  by (intro rel_if rel_returnM rel_throwM soundRel_preorder)

lemma sr_stopBlock:
  "rel (soundRel ref) (\<lambda>w. whenM (wasRunning (heap w ref))
          (seqM
            [updateSessionStatus ref stopping 5 ''Stopping server...'',
             updateHistoryStatus hid stopping None,
             whenM (hasServerService env)
               (seqM [(\<lambda>w. stopServer env (serverId (heap w ref)) w), sleep 2000])]) w)"
  by (intro rel_when_reading rel_seqM_Cons rel_seqM_Nil rel_whenM sr_updateSessionStatus sr_updateHistoryStatus
        sr_stopServer rel_sleep soundRel_fsClosed soundRel_preorder) simp_all

lemma sr_startBlock:
  "rel (soundRel ref) (\<lambda>w. whenM (wasRunning (heap w ref))
          (seqM
            [updateSessionStatus ref starting 90 ''Starting server...'',
             updateHistoryStatus hid starting None,
             whenM (hasServerService env) (\<lambda>w. startServer env (serverId (heap w ref)) w)]) w)"
  by (intro rel_when_reading rel_seqM_Cons rel_seqM_Nil rel_whenM sr_updateSessionStatus sr_updateHistoryStatus
        sr_startServer soundRel_preorder) simp_all

lemma sr_cancelUpdate: "rel (soundRel ref) (cancelUpdate env sid)"
proof (rule relI)
  fix s r s' assume h: "cancelUpdate env sid s = (r, s')"
  show "soundRel ref s s'"
  proof (cases "sessions s sid")
    case None
    then show ?thesis using h preorder_refl[OF soundRel_preorder] by (simp add: cancelUpdate_def)
  next
    case (Some r')
    show ?thesis
    proof (cases "status (heap s r') = completed \<or> status (heap s r') = failed")
      case True
      then show ?thesis using h Some preorder_refl[OF soundRel_preorder] by (auto simp add: cancelUpdate_def)
    next
      case False
      let ?m = "seqM
            [(\<lambda>w. case downloadSessionId (heap w r') of
                     Some dl \<Rightarrow> whenM (dl \<noteq> []) (cancelDownload dl) w
                   | None \<Rightarrow> returnM () w),
             (\<lambda>w. case tempPreservePath (heap w r') of
                     Some t \<Rightarrow>
                       whenM (t \<noteq> [] \<and> fs_pathExists t w)
                         (tryCatch (fs_remove env t) (\<lambda>err. returnM ())) w
                   | None \<Rightarrow> returnM () w),
             setSession r' (\<lambda>s. s\<lparr>status := failed, error := Some ''Update cancelled by user''\<rparr>),
             modifyM (\<lambda>w. w\<lparr>sessions := (sessions w)(sid \<mapsto> r')\<rparr>),
             (\<lambda>w. server_update (serverId (heap w r')) (\<lambda>sv. sv\<lparr>updateInProgress := False\<rparr>) w),
             (\<lambda>w. emit (UpdateCancelled sid (serverId (heap w r'))) w)]"
      have run: "?m s = (r, s')" using h Some False by (simp add: cancelUpdate_def)
      have l1: "rel (soundRel r') (\<lambda>w. case downloadSessionId (heap w r') of
                     Some dl \<Rightarrow> whenM (dl \<noteq> []) (cancelDownload dl) w
                   | None \<Rightarrow> returnM () w)"
        by (auto simp add: snd_defs prim_defs monad_defs split: option.splits)
      have l2: "rel (soundRel r') (\<lambda>w. case tempPreservePath (heap w r') of
                     Some t \<Rightarrow>
                       whenM (t \<noteq> [] \<and> fs_pathExists t w)
                         (tryCatch (fs_remove env t) (\<lambda>err. returnM ())) w
                   | None \<Rightarrow> returnM () w)"
      proof (rule relI)
        fix a ra b
        assume st: "(case tempPreservePath (heap a r') of
                     Some t \<Rightarrow>
                       whenM (t \<noteq> [] \<and> fs_pathExists t a)
                         (tryCatch (fs_remove env t) (\<lambda>err. returnM ())) a
                   | None \<Rightarrow> returnM () a) = (ra, b)"
        have "\<And>t. rel (soundRel r') (whenM (t \<noteq> [] \<and> fs_pathExists t a) (tryCatch (fs_remove env t) (\<lambda>err. returnM ())))"
          by (intro rel_whenM rel_tryCatch rel_fs_remove rel_returnM soundRel_fsClosed soundRel_preorder)
        then show "soundRel r' a b"
          using st preorder_refl[OF soundRel_preorder]
          by (cases "tempPreservePath (heap a r')") (auto simp add: rel_def returnM_def)
      qed
      have l4: "rel (soundRel r') (modifyM (\<lambda>w. w\<lparr>sessions := (sessions w)(sid \<mapsto> r')\<rparr>))"
        by (simp add: snd_defs modifyM_def)
      have "rel (soundRel r') ?m"
        by (intro rel_seqM_Cons rel_seqM_Nil l1 l2 l4 sr_setSession sr_server_update sr_emit soundRel_preorder)
           simp_all
      then have c: "soundRel r' s s'" using run by (rule relD)
      show ?thesis
        unfolding soundRel_def
      proof (intro conjI impI)
        show "nextRef s \<le> nextRef s'" using c by (simp add: soundRel_def)
        assume snd0: "sessionsSound s \<and> ref < nextRef s"
        then have "r' < nextRef s" using Some by (auto simp add: sessionsSound_def)
        then show "sessionsSound s'" using c snd0 by (simp add: soundRel_def)
      qed
    qed
  qed
qed

lemma sr_tick:
  "rel (soundRel ref) (seqM
     [setSession ref (\<lambda>s. s\<lparr>progress := p, message := m\<rparr>),
      sessions_set ref,
      (\<lambda>w. emit (UpdateProgress (sessionId (heap w ref)) (serverId (heap w ref))
                   (status (heap w ref)) (progress (heap w ref)) (message (heap w ref))) w)])"
  by (simp add: snd_defs prim_defs monad_defs)

lemma sr_waitLoop: "rel (soundRel ref) (waitLoop env ref k)"
proof (rule relI)
  fix s r s' assume h: "waitLoop env ref k s = (r, s')"
  note tr = preorder_trans[OF soundRel_preorder]
  note rf = preorder_refl[OF soundRel_preorder]
  from h show "soundRel ref s s'"
  proof (induction env ref k s arbitrary: r s' rule: waitLoop.induct)
    case (1 env ref k w)
    note unf = waitLoop.simps[of env ref k w]
    define w1 where "w1 = (if cancelAt env k then snd (cancelUpdate env (sessionId (heap w ref)) w) else w)"
    have a: "soundRel ref w w1"
      using relD[OF sr_cancelUpdate, of env "sessionId (heap w ref)" w "fst (cancelUpdate env (sessionId (heap w ref)) w)" "snd (cancelUpdate env (sessionId (heap w ref)) w)" ref] rf
      by (simp add: w1_def)
    show ?case
    proof (cases "ticksBeforeTimeout env < k")
      case True
      then show ?thesis using "1.prems" unf rf by simp
    next
      case notimeout: False
      show ?thesis
      proof (cases "sessionFailed ref w1")
        case True
        then show ?thesis using "1.prems" unf notimeout a by (simp add: w1_def Let_def)
      next
        case nf: False
        show ?thesis
        proof (cases "poll env k")
          case None
          then show ?thesis using "1.prems" unf notimeout nf a by (simp add: w1_def Let_def)
        next
          case (Some ds)
          define w2 where "w2 = snd (seqM
                     [setSession ref (\<lambda>s. s\<lparr>progress := Math_round (ieee env (45 + ieee env (d_progress ds * 0.25))),
                                            message := Some (DownloadingPercent (d_progress ds))\<rparr>),
                      sessions_set ref,
                      (\<lambda>w. emit (UpdateProgress (sessionId (heap w ref)) (serverId (heap w ref))
                                   (status (heap w ref)) (progress (heap w ref)) (message (heap w ref))) w)] w1)"
          have b: "soundRel ref w1 w2"
            unfolding w2_def by (rule relD[OF sr_tick]) (rule prod.collapse[symmetric])
          have ab: "soundRel ref w w2" using tr[OF a b] .
          show ?thesis
          proof (cases "d_status ds = ''complete'' \<or> d_status ds = ''failed''")
            case True
            then have "s' = w2" using "1.prems" unf notimeout nf Some
              by (auto simp add: w1_def w2_def Let_def)
            then show ?thesis using ab by simp
          next
            case False
            then have "waitLoop env ref (Suc k) w2 = (r, s')"
              using "1.prems" unf notimeout nf Some by (simp add: w1_def w2_def Let_def)
            then have "soundRel ref w2 s'"
              using "1.IH"[OF notimeout w1_def nf Some refl refl w2_def] False by simp
            then show ?thesis using tr[OF ab] by blast
          qed
        qed
      qed
    qed
  qed
qed

lemma sr_waitForDownload: "rel (soundRel ref) (waitForDownload env dl ref)"
  unfolding waitForDownload_def by (rule sr_waitLoop)

lemma sr_untilPreserved: "rel (soundRel ref) (untilPreserved env server ref hid)"
  unfolding untilPreserved_def
  by (intro rel_thenM rel_seqM_Cons rel_seqM_Nil rel_bindM rel_whenM sr_stopBlock sr_updateSessionStatus
        sr_updateHistoryStatus sr_createBackup sr_setSession sr_server_update sr_history_update
        rel_identifyPreservedPaths rel_preserveFiles soundRel_fsClosed soundRel_preorder)
     simp_all

lemma sr_untilRestored: "rel (soundRel ref) (untilRestored env server ref hid t)"
  unfolding untilRestored_def Let_def
  by (intro rel_thenM rel_seqM_Cons rel_seqM_Nil rel_bindM rel_whenM rel_when_reading rel_forM
        sr_updateSessionStatus sr_updateHistoryStatus sr_setSession sr_sessions_set
        sr_startDownload sr_waitForDownload sr_jarCheck rel_fs_readdir rel_removeWithRetry
        rel_restorePreservedFiles soundRel_fsClosed soundRel_preorder)
     simp_all

lemma sr_afterRestored: "rel (soundRel ref) (afterRestored env server ref hid)"
  unfolding afterRestored_def
  by (intro rel_seqM_Cons rel_seqM_Nil rel_whenM sr_startBlock sr_updateSessionStatus
        sr_updateHistoryStatus sr_server_update sr_history_update sr_emit sr_notify soundRel_preorder)
     simp_all

lemma sr_failureHandler: "rel (soundRel ref) (failureHandler env server ref hid tmp e)"
proof -
  have c: "rel (soundRel ref) (case tmp of
           Some t \<Rightarrow> whenM (t \<noteq> []) (tryCatch (fs_remove env t) (\<lambda>cleanupError. returnM ()))
         | None \<Rightarrow> returnM ())"
    by (cases tmp)
       (auto intro!: rel_whenM rel_tryCatch rel_fs_remove rel_returnM soundRel_fsClosed soundRel_preorder)
  show ?thesis
    unfolding failureHandler_def
    by (intro rel_seqM_Cons rel_seqM_Nil rel_whenM c sr_updateHistoryStatus sr_setSession sr_sessions_set
          sr_server_update sr_emit sr_notify soundRel_preorder)
       simp_all
qed

lemma sr_executeUpdatePipeline: "rel (soundRel ref) (executeUpdatePipeline env ref hid)"
proof (rule relI)
  fix s r s' assume h: "executeUpdatePipeline env ref hid s = (r, s')"
  note tr = preorder_trans[OF soundRel_preorder]
  note rf = preorder_refl[OF soundRel_preorder]
  show "soundRel ref s s'"
  proof (cases "servers s (serverId (heap s ref))")
    case None
    then show ?thesis using h rf by (simp add: executeUpdatePipeline_def)
  next
    case (Some server)
    obtain r1 w1 where s1: "untilPreserved env server ref hid s = (r1, w1)" by (cases "untilPreserved env server ref hid s")
    have a1: "soundRel ref s w1" using relD[OF sr_untilPreserved s1] .
    show ?thesis
    proof (cases r1)
      case (Throw e)
      then have "failureHandler env server ref hid None e w1 = (r, s')"
        using h Some s1 by (simp add: executeUpdatePipeline_def tryBlock_def)
      then show ?thesis using tr[OF a1 relD[OF sr_failureHandler]] by blast
    next
      case (Ok t)
      obtain r2 w2 where s2: "untilRestored env server ref hid t w1 = (r2, w2)" by (cases "untilRestored env server ref hid t w1")
      have a2: "soundRel ref s w2" using tr[OF a1 relD[OF sr_untilRestored s2]] .
      show ?thesis
      proof (cases r2)
        case Throw2: (Throw e)
        then have "failureHandler env server ref hid (Some t) e w2 = (r, s')"
          using h Some s1 Ok s2 by (simp add: executeUpdatePipeline_def tryBlock_def)
        then show ?thesis using tr[OF a2 relD[OF sr_failureHandler]] by blast
      next
        case Ok2: (Ok u)
        obtain r3 w3 where s3: "afterRestored env server ref hid w2 = (r3, w3)" by (cases "afterRestored env server ref hid w2")
        have a3: "soundRel ref s w3" using tr[OF a2 relD[OF sr_afterRestored s3]] .
        show ?thesis
        proof (cases r3)
          case Throw3: (Throw e)
          then have "failureHandler env server ref hid None e w3 = (r, s')"
            using h Some s1 Ok s2 Ok2 s3 by (simp add: executeUpdatePipeline_def tryBlock_def)
          then show ?thesis using tr[OF a3 relD[OF sr_failureHandler]] by blast
        next
          case Ok3: (Ok v)
          then have "s' = w3" using h Some s1 Ok s2 Ok2 s3 by (simp add: executeUpdatePipeline_def tryBlock_def)
          then show ?thesis using a3 by simp
        qed
      qed
    qed
  qed
qed

text \<open>
  Soundness of the sessions holds when the service is created and is kept by each of its
  operations.
\<close>

lemma sessionsSound_initial: "sessions w = Map.empty \<Longrightarrow> nextRef w = 0 \<Longrightarrow> sessionsSound w"
  by (simp add: sessionsSound_def)

lemma sessionsSound_executeUpdatePipeline:
  assumes "sessionsSound w" and "ref < nextRef w" and "executeUpdatePipeline env ref hid w = (r, w')"
  shows "sessionsSound w' \<and> nextRef w \<le> nextRef w'"
  using relD[OF sr_executeUpdatePipeline assms(3)] assms(1,2) by (simp add: soundRel_def)

lemma sessionsSound_cancelUpdate:
  assumes "sessionsSound w" and "cancelUpdate env sid w = (r, w')"
  shows "sessionsSound w' \<and> nextRef w \<le> nextRef w'"
proof (cases "sessions w sid")
  case None
  then show ?thesis using assms by (simp add: cancelUpdate_def)
next
  case (Some ref)
  then have "ref < nextRef w" using assms(1) by (auto simp add: sessionsSound_def)
  then show ?thesis using relD[OF sr_cancelUpdate assms(2), of ref] assms(1) by (simp add: soundRel_def)
qed

lemma keepsSessions_preorder: "isPreorder keepsSessions"
  by (simp add: isPreorder_def keepsSessions_def)

lemma keepsSessions_fsClosed: "fsClosed keepsSessions"
  unfolding fsClosed_def by (simp add: keepsSessions_preorder) (simp add: keepsSessions_def)

lemma ks_rollback: "rel keepsSessions (rollback env sid)"
proof (rule relI)
  fix s r s' assume h: "rollback env sid s = (r, s')"
  note rf = preorder_refl[OF keepsSessions_preorder]
  show "keepsSessions s s'"
  proof (cases "servers s sid")
    case None
    then show ?thesis using h rf by (simp add: rollback_def)
  next
    case (Some server)
    show ?thesis
    proof (cases "truthy (preUpdateBackupId server)")
      case False
      then show ?thesis using h Some rf by (simp add: rollback_def)
    next
      case True
      let ?wr = "serverStatus server = ''running''"
      let ?bid = "orDefault (preUpdateBackupId server) []"
      let ?m = "seqM
              [whenM (?wr \<and> hasServerService env) (seqM [stopServer env sid, sleep 2000]),
               whenM (hasBackupService env) (restoreBackup env ?bid),
               (\<lambda>w. case history_findFirst sid ?bid w of
                       None \<Rightarrow> returnM () w
                     | Some (hid, updateHistory) \<Rightarrow>
                         seqM
                           [server_update sid
                              (\<lambda>sv. sv\<lparr>version := h_fromVersion updateHistory, preUpdateBackupId := None\<rparr>),
                            history_update hid (\<lambda>h. h\<lparr>h_status := rolled_back\<rparr>)] w),
               whenM (?wr \<and> hasServerService env) (startServer env sid),
               emit (RollbackCompleted sid)]"
      have run: "?m s = (r, s')" using h Some True by (simp add: rollback_def Let_def)
      have l1: "rel keepsSessions (stopServer env sid)"
        by (auto simp add: rel_def keepsSessions_def prim_defs monad_defs split: option.splits)
      have l2: "rel keepsSessions (restoreBackup env ?bid)"
        by (auto simp add: rel_def keepsSessions_def prim_defs monad_defs split: option.splits)
      have l3: "rel keepsSessions (\<lambda>w. case history_findFirst sid ?bid w of
                       None \<Rightarrow> returnM () w
                     | Some (hid, updateHistory) \<Rightarrow>
                         seqM
                           [server_update sid
                              (\<lambda>sv. sv\<lparr>version := h_fromVersion updateHistory, preUpdateBackupId := None\<rparr>),
                            history_update hid (\<lambda>h. h\<lparr>h_status := rolled_back\<rparr>)] w)"
        by (auto simp add: rel_def keepsSessions_def prim_defs monad_defs split: option.splits if_splits)
      have l4: "rel keepsSessions (startServer env sid)"
        by (auto simp add: rel_def keepsSessions_def prim_defs monad_defs split: option.splits)
      have l5: "rel keepsSessions (emit (RollbackCompleted sid))"
        by (simp add: rel_def keepsSessions_def prim_defs monad_defs)
      have "rel keepsSessions ?m"
        by (intro rel_seqM_Cons rel_seqM_Nil rel_whenM rel_sleep l1 l2 l3 l4 l5
              keepsSessions_fsClosed keepsSessions_preorder)
      then show ?thesis using run by (rule relD)
    qed
  qed
qed

lemma sessionsSound_rollback:
  assumes "sessionsSound w" and "rollback env sid w = (r, w')"
  shows "sessionsSound w'"
  using relD[OF ks_rollback assms(2)] assms(1) by (simp add: keepsSessions_def sessionsSound_def)

lemma resolveTarget_onlyCalls:
  "resolveTarget env tv w = (r, w1) \<Longrightarrow> onlyCalls w w1"
  by (auto simp add: resolveTarget_def queryLatest_def getGameVersion_def logCall_def onlyCalls_def monad_defs
        split: option.splits sum.splits if_splits res.splits)

lemma sessionsSound_startUpdate:
  assumes "sessionsSound w" and "startUpdate env sid tv w = (r, w')"
  shows "sessionsSound w' \<and> nextRef w \<le> nextRef w'
     \<and> (\<forall>ref hid. r = Ok (ref, hid) \<longrightarrow> ref < nextRef w' \<and> status (heap w' ref) = pending)"
proof (cases "servers w sid")
  case None
  then show ?thesis using assms by (auto simp add: startUpdate_def)
next
  case (Some server)
  show ?thesis
  proof (cases "updateInProgress server")
    case True
    then show ?thesis using assms Some by (auto simp add: startUpdate_def)
  next
    case False
    obtain r1 w1 where rt: "resolveTarget env tv w = (r1, w1)" by (cases "resolveTarget env tv w")
    have k: "onlyCalls w w1" using resolveTarget_onlyCalls[OF rt] .
    then have s1: "sessionsSound w1" "nextRef w1 = nextRef w"
      using assms(1) by (simp_all add: onlyCalls_def sessionsSound_def)
    show ?thesis
    proof (cases r1)
      case (Throw e)
      then show ?thesis using assms Some False rt s1 by (auto simp add: startUpdate_def bindM_def)
    next
      case (Ok toVer)
      show ?thesis
      proof (cases "toVer = version server")
        case True
        then show ?thesis using assms Some False rt s1 Ok by (auto simp add: startUpdate_def bindM_def throwM_def)
      next
        case ne: False
        have sv1: "servers w1 sid = Some server" using k Some by (simp add: onlyCalls_def)
        have fin: "\<exists>hid sessId sess. r = Ok (nextRef w, hid) \<and> nextRef w' = Suc (nextRef w)
            \<and> sessions w' = (sessions w1)(sessId \<mapsto> nextRef w)
            \<and> heap w' = (heap w1)(nextRef w := sess) \<and> status sess = pending"
          using assms(2) Some False rt s1(2) Ok ne sv1
          by (cases "hasDiscordService env")
             (auto simp add: startUpdate_def prim_defs monad_defs history_create_def Let_def)
        then obtain hid sessId sess where f: "r = Ok (nextRef w, hid)" "nextRef w' = Suc (nextRef w)"
            "sessions w' = (sessions w1)(sessId \<mapsto> nextRef w)"
            "heap w' = (heap w1)(nextRef w := sess)" "status sess = pending"
          by blast
        have a: "\<And>x ref. sessions w1 x = Some ref \<Longrightarrow> ref < nextRef w"
          using s1 by (auto simp add: sessionsSound_def)
        have b: "\<And>ref. ref < nextRef w \<Longrightarrow> status (heap w1 ref) \<noteq> rolled_back"
          using s1 by (auto simp add: sessionsSound_def)
        have "sessionsSound w'"
          unfolding sessionsSound_def f
          using a b f(5) by (auto simp add: less_Suc_eq dest: a)
        then show ?thesis using f by simp
      qed
    qed
  qed
qed
section \<open>Cancelling\<close>





section \<open>The download wait\<close>

lemma progressValues_append: "progressValues (xs @ ys) = progressValues xs @ progressValues ys"
  by (induction xs rule: progressValues.induct) simp_all

lemma registered_not_failed: "registered ref w \<Longrightarrow> \<not> sessionFailed ref w"
  by (simp add: registered_def sessionFailed_def)

lemma cancel_cleanup:
  "\<exists>w2. seqM
      [(\<lambda>w. case downloadSessionId (heap w ref) of
                     Some dl \<Rightarrow> whenM (dl \<noteq> []) (cancelDownload dl) w
                   | None \<Rightarrow> returnM () w),
       (\<lambda>w. case tempPreservePath (heap w ref) of
                     Some t \<Rightarrow>
                       whenM (t \<noteq> [] \<and> fs_pathExists t w)
                         (tryCatch (fs_remove env t) (\<lambda>err. returnM ())) w
                   | None \<Rightarrow> returnM () w)] w = (Ok (), w2)
     \<and> heap w2 = heap w \<and> sessions w2 = sessions w \<and> events w2 = events w"
  by (auto simp add: monad_defs cancelDownload_def logCall_def fs_remove_def fsCall_def Let_def
      split: option.splits prod.splits res.splits)

lemma cancel_marks:
  assumes "registered ref w"
  shows "sessionFailed ref (snd (cancelUpdate env (sessionId (heap w ref)) w))"
    and "progressValues (events (snd (cancelUpdate env (sessionId (heap w ref)) w))) = progressValues (events w)"
proof -
  let ?sid = "sessionId (heap w ref)"
  let ?pre = "seqM
      [(\<lambda>w. case downloadSessionId (heap w ref) of
                     Some dl \<Rightarrow> whenM (dl \<noteq> []) (cancelDownload dl) w
                   | None \<Rightarrow> returnM () w),
       (\<lambda>w. case tempPreservePath (heap w ref) of
                     Some t \<Rightarrow>
                       whenM (t \<noteq> [] \<and> fs_pathExists t w)
                         (tryCatch (fs_remove env t) (\<lambda>err. returnM ())) w
                   | None \<Rightarrow> returnM () w)]"
  let ?post = "seqM
            [setSession ref (\<lambda>s. s\<lparr>status := failed, error := Some ''Update cancelled by user''\<rparr>),
             modifyM (\<lambda>w. w\<lparr>sessions := (sessions w)(?sid \<mapsto> ref)\<rparr>),
             (\<lambda>w. server_update (serverId (heap w ref)) (\<lambda>sv. sv\<lparr>updateInProgress := False\<rparr>) w),
             (\<lambda>w. emit (UpdateCancelled ?sid (serverId (heap w ref))) w)]"
  have reg: "sessions w ?sid = Some ref" "status (heap w ref) \<noteq> failed" "status (heap w ref) \<noteq> completed"
    using assms by (simp_all add: registered_def)
  obtain w2 where pre: "?pre w = (Ok (), w2)" and same: "heap w2 = heap w" "sessions w2 = sessions w" "events w2 = events w"
    using cancel_cleanup[of ref env w] by blast
  have "cancelUpdate env ?sid w = seqM
      [(\<lambda>w. case downloadSessionId (heap w ref) of
                     Some dl \<Rightarrow> whenM (dl \<noteq> []) (cancelDownload dl) w
                   | None \<Rightarrow> returnM () w),
       (\<lambda>w. case tempPreservePath (heap w ref) of
                     Some t \<Rightarrow>
                       whenM (t \<noteq> [] \<and> fs_pathExists t w)
                         (tryCatch (fs_remove env t) (\<lambda>err. returnM ())) w
                   | None \<Rightarrow> returnM () w),
       setSession ref (\<lambda>s. s\<lparr>status := failed, error := Some ''Update cancelled by user''\<rparr>),
       modifyM (\<lambda>w. w\<lparr>sessions := (sessions w)(?sid \<mapsto> ref)\<rparr>),
       (\<lambda>w. server_update (serverId (heap w ref)) (\<lambda>sv. sv\<lparr>updateInProgress := False\<rparr>) w),
       (\<lambda>w. emit (UpdateCancelled ?sid (serverId (heap w ref))) w)] w"
    using reg by (simp add: cancelUpdate_def del: seqM.simps)
  then have unf: "cancelUpdate env ?sid w = thenM ?pre ?post w"
    by (simp only: seqM_split2)
  then have run: "cancelUpdate env ?sid w = ?post w2" using pre by (simp add: thenM_def bindM_def)
  have a: "sessionFailed ref (snd (?post w2)) \<and> progressValues (events (snd (?post w2))) = progressValues (events w)"
    using same
    by (cases "servers w2 (serverId (heap w ref))")
       (simp_all add: prim_defs monad_defs sessionFailed_def progressValues_append)
  show "sessionFailed ref (snd (cancelUpdate env ?sid w))" using a run by simp
  show "progressValues (events (snd (cancelUpdate env ?sid w))) = progressValues (events w)" using a run by simp
qed

lemma tick_registered:
  assumes "registered ref w1"
  shows "registered ref (snd (seqM
     [setSession ref (\<lambda>s. s\<lparr>progress := p, message := m\<rparr>),
      sessions_set ref,
      (\<lambda>w. emit (UpdateProgress (sessionId (heap w ref)) (serverId (heap w ref))
                   (status (heap w ref)) (progress (heap w ref)) (message (heap w ref))) w)] w1))"
    and "progressValues (events (snd (seqM
     [setSession ref (\<lambda>s. s\<lparr>progress := p, message := m\<rparr>),
      sessions_set ref,
      (\<lambda>w. emit (UpdateProgress (sessionId (heap w ref)) (serverId (heap w ref))
                   (status (heap w ref)) (progress (heap w ref)) (message (heap w ref))) w)] w1)))
        = progressValues (events w1) @ [p]"
  using assms by (simp_all add: registered_def prim_defs monad_defs progressValues_append)

lemma settled_now:
  assumes "settles env k" and "k \<le> N" and "r = settlement env k"
  shows "(\<forall>j. k \<le> j \<and> j \<le> N \<and> settles env j \<and> (\<forall>i. k \<le> i \<and> i < j \<longrightarrow> \<not> settles env i)
        \<longrightarrow> r = settlement env j)
   \<and> ((\<forall>j. k \<le> j \<and> j \<le> N \<longrightarrow> \<not> settles env j) \<longrightarrow> r = Throw (Error ''Download timed out''))"
proof (intro conjI allI impI)
  fix j assume h: "k \<le> j \<and> j \<le> N \<and> settles env j \<and> (\<forall>i. k \<le> i \<and> i < j \<longrightarrow> \<not> settles env i)"
  have "j = k"
  proof (rule ccontr)
    assume "j \<noteq> k"
    then have "k < j" using h by simp
    then show False using h assms(1) by blast
  qed
  then show "r = settlement env j" using assms(3) by simp
next
  assume "\<forall>j. k \<le> j \<and> j \<le> N \<longrightarrow> \<not> settles env j"
  then have False using assms(1,2) by blast
  then show "r = Throw (Error ''Download timed out'')" ..
qed

lemma waitLoop_spec:
  "registered ref w \<Longrightarrow> waitLoop env ref k w = (r, w') \<Longrightarrow>
   (\<forall>j. k \<le> j \<and> j \<le> ticksBeforeTimeout env \<and> settles env j \<and> (\<forall>i. k \<le> i \<and> i < j \<longrightarrow> \<not> settles env i)
        \<longrightarrow> r = settlement env j)
   \<and> ((\<forall>j. k \<le> j \<and> j \<le> ticksBeforeTimeout env \<longrightarrow> \<not> settles env j) \<longrightarrow> r = Throw (Error ''Download timed out''))
   \<and> length (progressValues (events w')) \<le> length (progressValues (events w)) + (Suc (ticksBeforeTimeout env) - k)"
proof (induction env ref k w arbitrary: r w' rule: waitLoop.induct)
  case (1 env ref k w)
  note unf = waitLoop.simps[of env ref k w]
  let ?N = "ticksBeforeTimeout env"
  show ?case
  proof (cases "?N < k")
    case True
    then show ?thesis using "1.prems" unf by auto
  next
    case inrange: False
    define w1 where "w1 = (if cancelAt env k then snd (cancelUpdate env (sessionId (heap w ref)) w) else w)"
    have pv1: "progressValues (events w1) = progressValues (events w)"
      using cancel_marks(2)[OF "1.prems"(1)] by (simp add: w1_def)
    show ?thesis
    proof (cases "cancelAt env k")
      case True
      then have sf: "sessionFailed ref w1" using cancel_marks(1)[OF "1.prems"(1)] by (simp add: w1_def)
      then have res: "r = Throw (Error ''Update cancelled'')" "w' = w1"
        using "1.prems"(2) unf inrange by (simp_all add: w1_def Let_def)
      have st: "settles env k" "settlement env k = Throw (Error ''Update cancelled'')"
        using True by (simp_all add: settles_def settlement_def)
      have kN: "k \<le> ?N" using inrange by simp
      show ?thesis using settled_now[OF st(1) kN, of r] res st(2) pv1 by simp
    next
      case nocancel: False
      then have w1: "w1 = w" by (simp add: w1_def)
      have nf: "\<not> sessionFailed ref w1" using registered_not_failed[OF "1.prems"(1)] w1 by simp
      show ?thesis
      proof (cases "poll env k")
        case None
        then have res: "r = Throw (Error ''Download session not found'')" "w' = w"
          using "1.prems"(2) unf inrange nf w1 nocancel by (simp_all add: Let_def)
        have st: "settles env k" "settlement env k = Throw (Error ''Download session not found'')"
          using None nocancel by (simp_all add: settles_def settlement_def)
        have kN: "k \<le> ?N" using inrange by simp
        show ?thesis using settled_now[OF st(1) kN, of r] res st(2) by simp
      next
        case (Some ds)
        define w2 where "w2 = snd (seqM
                     [setSession ref (\<lambda>s. s\<lparr>progress := Math_round (ieee env (45 + ieee env (d_progress ds * 0.25))),
                                            message := Some (DownloadingPercent (d_progress ds))\<rparr>),
                      sessions_set ref,
                      (\<lambda>w. emit (UpdateProgress (sessionId (heap w ref)) (serverId (heap w ref))
                                   (status (heap w ref)) (progress (heap w ref)) (message (heap w ref))) w)] w1)"
        have reg2: "registered ref w2" unfolding w2_def using tick_registered(1) "1.prems"(1) w1 by simp
        have pv2: "length (progressValues (events w2)) = Suc (length (progressValues (events w)))"
          unfolding w2_def using tick_registered(2)[of ref w1] "1.prems"(1) w1 by simp
        show ?thesis
        proof (cases "d_status ds = ''complete'' \<or> d_status ds = ''failed''")
          case True
          then have res: "r = settlement env k" "w' = w2"
            using "1.prems"(2) unf inrange nf nocancel Some
            by (auto simp add: w1_def w2_def Let_def settlement_def)
          have st: "settles env k" using True Some by (simp add: settles_def)
          have kN: "k \<le> ?N" using inrange by simp
          show ?thesis using settled_now[OF st kN, of r] res pv2 kN by simp
        next
          case False
          then have ns: "\<not> settles env k" using Some nocancel by (simp add: settles_def)
          have rec: "waitLoop env ref (Suc k) w2 = (r, w')"
            using "1.prems"(2) unf inrange nf nocancel Some False by (simp add: w1_def w2_def Let_def)
          note ih = "1.IH"[OF inrange w1_def nf Some refl refl w2_def _ _ reg2 rec]
          have ih': "(\<forall>j. Suc k \<le> j \<and> j \<le> ?N \<and> settles env j \<and> (\<forall>i. Suc k \<le> i \<and> i < j \<longrightarrow> \<not> settles env i)
                  \<longrightarrow> r = settlement env j)
             \<and> ((\<forall>j. Suc k \<le> j \<and> j \<le> ?N \<longrightarrow> \<not> settles env j) \<longrightarrow> r = Throw (Error ''Download timed out''))
             \<and> length (progressValues (events w')) \<le> length (progressValues (events w2)) + (Suc ?N - Suc k)"
            using ih False by simp
          have c1: "\<forall>j. k \<le> j \<and> j \<le> ?N \<and> settles env j \<and> (\<forall>i. k \<le> i \<and> i < j \<longrightarrow> \<not> settles env i)
                  \<longrightarrow> r = settlement env j"
          proof (intro allI impI)
            fix j assume h: "k \<le> j \<and> j \<le> ?N \<and> settles env j \<and> (\<forall>i. k \<le> i \<and> i < j \<longrightarrow> \<not> settles env i)"
            then have "j \<noteq> k" using ns by auto
            then have "Suc k \<le> j" using h by simp
            moreover have "\<forall>i. Suc k \<le> i \<and> i < j \<longrightarrow> \<not> settles env i" using h by simp
            ultimately show "r = settlement env j" using ih' h by blast
          qed
          have c2: "(\<forall>j. k \<le> j \<and> j \<le> ?N \<longrightarrow> \<not> settles env j) \<longrightarrow> r = Throw (Error ''Download timed out'')"
            using ih' by simp
          have "length (progressValues (events w')) \<le> length (progressValues (events w2)) + (Suc ?N - Suc k)"
            using ih' by blast
          then have c3: "length (progressValues (events w')) \<le> length (progressValues (events w)) + (Suc ?N - k)"
            using pv2 inrange by linarith
          show ?thesis using c1 c2 c3 by blast
        qed
      qed
    qed
  qed
qed

text \<open>
  C8. \<open>waitForDownload\<close> is a total function: the wait returns for every behaviour of the
  provider, of the file system and of a concurrent cancellation. For a session that is in
  the session map and neither failed nor completed, its outcome is decided by the first
  tick, among those that run before the timer of thirty minutes, at which the update has
  been cancelled, the provider's session is gone, or the provider reports \<open>complete\<close> or
  \<open>failed\<close>: the wait resolves on \<open>complete\<close> and rejects with \<open>Update cancelled\<close>,
  \<open>Download session not found\<close> or the provider's error otherwise. When there is no such
  tick it rejects with \<open>Download timed out\<close>. It emits at most one progress event for each
  tick that runs.
\<close>

theorem waitForDownload_settles:
  assumes "registered ref w" and "waitForDownload env dl ref w = (r, w')"
  shows "(\<forall>j. 1 \<le> j \<and> j \<le> ticksBeforeTimeout env \<and> settles env j \<and> (\<forall>i. 1 \<le> i \<and> i < j \<longrightarrow> \<not> settles env i)
            \<longrightarrow> r = settlement env j)
     \<and> ((\<forall>j. 1 \<le> j \<and> j \<le> ticksBeforeTimeout env \<longrightarrow> \<not> settles env j)
            \<longrightarrow> r = Throw (Error ''Download timed out''))
     \<and> length (progressValues (events w')) \<le> length (progressValues (events w)) + ticksBeforeTimeout env"
  using waitLoop_spec[OF assms(1), of env 1 r w'] assms(2)
  by (simp add: waitForDownload_def)

theorem waitForDownload_settles_witness:
  "registered 0 midWorld
   \<and> fst (waitForDownload stuckEnv ''dl-1'' 0 midWorld) = Throw (Error ''Download timed out'')
   \<and> settles diskFullEnv 1
   \<and> fst (waitForDownload diskFullEnv ''dl-1'' 0 midWorld) = Throw (Error ''disk full'')"
proof -
  have reg: "registered 0 midWorld"
    by (simp add: registered_def midWorld_def midSession_def blankSession_def)
  have run1: "waitForDownload stuckEnv ''dl-1'' 0 midWorld
      = (fst (waitForDownload stuckEnv ''dl-1'' 0 midWorld), snd (waitForDownload stuckEnv ''dl-1'' 0 midWorld))"
    by simp
  have run2: "waitForDownload diskFullEnv ''dl-1'' 0 midWorld
      = (fst (waitForDownload diskFullEnv ''dl-1'' 0 midWorld), snd (waitForDownload diskFullEnv ''dl-1'' 0 midWorld))"
    by simp
  have never: "\<forall>j. 1 \<le> j \<and> j \<le> ticksBeforeTimeout stuckEnv \<longrightarrow> \<not> settles stuckEnv j"
    by (simp add: settles_def stuckEnv_def installEnv_def quietEnv_def)
  have c1: "fst (waitForDownload stuckEnv ''dl-1'' 0 midWorld) = Throw (Error ''Download timed out'')"
    using waitForDownload_settles[OF reg run1, THEN conjunct2, THEN conjunct1] never by blast
  have st: "settles diskFullEnv 1" by (simp add: settles_def diskFullEnv_def installEnv_def quietEnv_def)
  have first: "1 \<le> (1::nat) \<and> 1 \<le> ticksBeforeTimeout diskFullEnv \<and> settles diskFullEnv 1
       \<and> (\<forall>i. 1 \<le> i \<and> i < 1 \<longrightarrow> \<not> settles diskFullEnv i)"
    using st by (simp add: diskFullEnv_def installEnv_def quietEnv_def)
  have "fst (waitForDownload diskFullEnv ''dl-1'' 0 midWorld) = settlement diskFullEnv 1"
    using waitForDownload_settles[OF reg run2, THEN conjunct1, rule_format, OF first] .
  then have c2: "fst (waitForDownload diskFullEnv ''dl-1'' 0 midWorld) = Throw (Error ''disk full'')"
    by (simp add: settlement_def diskFullEnv_def installEnv_def quietEnv_def orDefault_def)
  show ?thesis using reg c1 st c2 by simp
qed
section \<open>Progress\<close>

subsection \<open>Quiet steps\<close>

lemma quietRel_preorder: "isPreorder (quietRel ref)"
  unfolding isPreorder_def
proof (intro conjI allI impI)
  fix s show "quietRel ref s s" by (simp add: quietRel_def)
next
  fix a b c assume ab: "quietRel ref a b" and bc: "quietRel ref b c"
  obtain e1 where e1: "events b = events a @ e1" using ab by (auto simp add: quietRel_def prefix_def)
  obtain e2 where e2: "events c = events b @ e2" using bc by (auto simp add: quietRel_def prefix_def)
  show "quietRel ref a c" using ab bc e1 e2 by (simp add: quietRel_def progressValues_append)
qed

lemma quietRel_fsClosed: "fsClosed (quietRel ref)"
  unfolding fsClosed_def by (simp add: quietRel_preorder) (simp add: quietRel_def)

lemmas q_defs = rel_def quietRel_def

lemma q_updateHistoryStatus: "rel (quietRel ref) (updateHistoryStatus hid st err)"
  by (simp add: q_defs prim_defs monad_defs)

lemma q_history_update: "rel (quietRel ref) (history_update hid f)"
  by (simp add: q_defs prim_defs monad_defs)

lemma q_server_update: "rel (quietRel ref) (\<lambda>w. server_update (g w) (f w) w)"
  by (auto simp add: q_defs prim_defs monad_defs split: option.splits)

lemma q_setSession: "(\<And>s. progress (f s) = progress s) \<Longrightarrow> rel (quietRel ref) (setSession r f)"
  by (simp add: q_defs prim_defs monad_defs)

lemma q_sessions_set: "rel (quietRel ref) (sessions_set r)"
  by (simp add: q_defs prim_defs monad_defs)

lemma q_stopServer: "rel (quietRel ref) (\<lambda>w. stopServer env (g w) w)"
  by (auto simp add: q_defs prim_defs monad_defs split: option.splits)

lemma q_startServer: "rel (quietRel ref) (\<lambda>w. startServer env (g w) w)"
  by (auto simp add: q_defs prim_defs monad_defs split: option.splits)

lemma q_createBackup: "rel (quietRel ref) (\<lambda>w. createBackup env (g w) (l w) w)"
  by (auto simp add: q_defs prim_defs monad_defs split: sum.splits)

lemma q_startDownload: "rel (quietRel ref) (startDownload env p)"
  by (auto simp add: q_defs prim_defs monad_defs split: sum.splits)

lemma q_notify: "rel (quietRel ref) (notify k n)"
  by (simp add: q_defs prim_defs monad_defs)

lemma q_emit: "(\<And>w. progressValues [E w] = []) \<Longrightarrow> rel (quietRel ref) (\<lambda>w. emit (E w) w)"
  by (simp add: q_defs prim_defs monad_defs)

lemma q_jarCheck: "rel (quietRel ref) (\<lambda>w. if c w then returnM () w else throwM e w)"
  by (intro rel_if rel_returnM rel_throwM quietRel_preorder)

lemma q_cancelUpdate: "rel (quietRel ref) (cancelUpdate env sid)"
proof (rule relI)
  fix s r s' assume h: "cancelUpdate env sid s = (r, s')"
  show "quietRel ref s s'"
  proof (cases "sessions s sid")
    case None
    then show ?thesis using h preorder_refl[OF quietRel_preorder] by (simp add: cancelUpdate_def)
  next
    case (Some r')
    show ?thesis
    proof (cases "status (heap s r') = completed \<or> status (heap s r') = failed")
      case True
      then show ?thesis using h Some preorder_refl[OF quietRel_preorder] by (auto simp add: cancelUpdate_def)
    next
      case False
      let ?m = "seqM
            [(\<lambda>w. case downloadSessionId (heap w r') of
                     Some dl \<Rightarrow> whenM (dl \<noteq> []) (cancelDownload dl) w
                   | None \<Rightarrow> returnM () w),
             (\<lambda>w. case tempPreservePath (heap w r') of
                     Some t \<Rightarrow>
                       whenM (t \<noteq> [] \<and> fs_pathExists t w)
                         (tryCatch (fs_remove env t) (\<lambda>err. returnM ())) w
                   | None \<Rightarrow> returnM () w),
             setSession r' (\<lambda>s. s\<lparr>status := failed, error := Some ''Update cancelled by user''\<rparr>),
             modifyM (\<lambda>w. w\<lparr>sessions := (sessions w)(sid \<mapsto> r')\<rparr>),
             (\<lambda>w. server_update (serverId (heap w r')) (\<lambda>sv. sv\<lparr>updateInProgress := False\<rparr>) w),
             (\<lambda>w. emit (UpdateCancelled sid (serverId (heap w r'))) w)]"
      have run: "?m s = (r, s')" using h Some False by (simp add: cancelUpdate_def)
      have l1: "rel (quietRel ref) (\<lambda>w. case downloadSessionId (heap w r') of
                     Some dl \<Rightarrow> whenM (dl \<noteq> []) (cancelDownload dl) w
                   | None \<Rightarrow> returnM () w)"
        by (auto simp add: q_defs prim_defs monad_defs split: option.splits)
      have l2: "rel (quietRel ref) (\<lambda>w. case tempPreservePath (heap w r') of
                     Some t \<Rightarrow>
                       whenM (t \<noteq> [] \<and> fs_pathExists t w)
                         (tryCatch (fs_remove env t) (\<lambda>err. returnM ())) w
                   | None \<Rightarrow> returnM () w)"
      proof (rule relI)
        fix a ra b
        assume st: "(case tempPreservePath (heap a r') of
                     Some t \<Rightarrow>
                       whenM (t \<noteq> [] \<and> fs_pathExists t a)
                         (tryCatch (fs_remove env t) (\<lambda>err. returnM ())) a
                   | None \<Rightarrow> returnM () a) = (ra, b)"
        have "\<And>t. rel (quietRel ref) (whenM (t \<noteq> [] \<and> fs_pathExists t a) (tryCatch (fs_remove env t) (\<lambda>err. returnM ())))"
          by (intro rel_whenM rel_tryCatch rel_fs_remove rel_returnM quietRel_fsClosed quietRel_preorder)
        then show "quietRel ref a b"
          using st preorder_refl[OF quietRel_preorder]
          by (cases "tempPreservePath (heap a r')") (auto simp add: rel_def returnM_def)
      qed
      have l4: "rel (quietRel ref) (modifyM (\<lambda>w. w\<lparr>sessions := (sessions w)(sid \<mapsto> r')\<rparr>))"
        by (simp add: q_defs modifyM_def)
      have "rel (quietRel ref) ?m"
        by (intro rel_seqM_Cons rel_seqM_Nil l1 l2 l4 q_setSession q_server_update q_emit quietRel_preorder)
           simp_all
      then show ?thesis using run by (rule relD)
    qed
  qed
qed

lemma q_failureHandler: "rel (quietRel ref) (failureHandler env server ref hid tmp e)"
proof -
  have c: "rel (quietRel ref) (case tmp of
           Some t \<Rightarrow> whenM (t \<noteq> []) (tryCatch (fs_remove env t) (\<lambda>cleanupError. returnM ()))
         | None \<Rightarrow> returnM ())"
    by (cases tmp)
       (auto intro!: rel_whenM rel_tryCatch rel_fs_remove rel_returnM quietRel_fsClosed quietRel_preorder)
  show ?thesis
    unfolding failureHandler_def
    by (intro rel_seqM_Cons rel_seqM_Nil rel_whenM c q_updateHistoryStatus q_setSession q_sessions_set
          q_server_update q_emit q_notify quietRel_preorder)
       simp_all
qed

subsection \<open>Stages\<close>

lemma progInv_mono: "progInv ref n p0 c w \<Longrightarrow> c \<le> c' \<Longrightarrow> progInv ref n p0 c' w"
  by (simp add: progInv_def)

lemma progInv_quiet:
  assumes "progInv ref n p0 c w" and "quietRel ref w w'"
  shows "progInv ref n p0 c w'"
proof -
  obtain e where e: "events w' = events w @ e" using assms(2) by (auto simp add: quietRel_def prefix_def)
  have pe: "progressValues e = []" using assms(2) e by (simp add: quietRel_def)
  have n: "n \<le> length (events w)" using assms(1) by (simp add: progInv_def)
  have "drop n (events w') = drop n (events w) @ e" using e n by simp
  then have "progressValues (drop n (events w')) = progressValues (drop n (events w))"
    using pe by (simp add: progressValues_append)
  then show ?thesis using assms e by (simp add: progInv_def quietRel_def)
qed

lemma stage_quiet: "rel (quietRel ref) m \<Longrightarrow> c \<le> 100 \<Longrightarrow> stage ref n p0 c m c"
  unfolding stage_def
proof (intro allI impI)
  fix s r s' assume q: "rel (quietRel ref) m" and c: "c \<le> 100" and i: "progInv ref n p0 c s" and m: "m s = (r, s')"
  have "progInv ref n p0 c s'" using progInv_quiet[OF i relD[OF q m]] .
  then show "case r of Ok x \<Rightarrow> progInv ref n p0 c s' | Throw e \<Rightarrow> progInv ref n p0 100 s'"
    using progInv_mono[of ref n p0 c s' 100] c by (cases r) simp_all
qed

lemma stage_weaken:
  assumes "stage ref n p0 c m c1" and "c1 \<le> c'"
  shows "stage ref n p0 c m c'"
  unfolding stage_def
proof (intro allI impI)
  fix s r s' assume i: "progInv ref n p0 c s" and m: "m s = (r, s')"
  show "case r of Ok x \<Rightarrow> progInv ref n p0 c' s' | Throw e \<Rightarrow> progInv ref n p0 100 s'"
  proof (cases r)
    case (Ok x)
    then have "progInv ref n p0 c1 s'" using assms(1) i m by (auto simp add: stage_def)
    then show ?thesis using Ok progInv_mono[OF _ assms(2)] by simp
  next
    case (Throw e)
    then show ?thesis using assms(1) i m by (auto simp add: stage_def)
  qed
qed

lemma stage_bindM:
  assumes "stage ref n p0 c m c1" and "\<And>x. stage ref n p0 c1 (f x) c'"
  shows "stage ref n p0 c (bindM m f) c'"
  unfolding stage_def
proof (intro allI impI)
  fix s r s' assume i: "progInv ref n p0 c s" and h: "bindM m f s = (r, s')"
  obtain r1 s1 where m: "m s = (r1, s1)" by (cases "m s")
  show "case r of Ok x \<Rightarrow> progInv ref n p0 c' s' | Throw e \<Rightarrow> progInv ref n p0 100 s'"
  proof (cases r1)
    case (Ok x)
    then have i1: "progInv ref n p0 c1 s1" using assms(1) i m by (auto simp add: stage_def)
    have "f x s1 = (r, s')" using h m Ok by (simp add: bindM_def)
    then show ?thesis using assms(2)[of x] i1 by (auto simp add: stage_def)
  next
    case (Throw e)
    then have i1: "progInv ref n p0 100 s1" using assms(1) i m by (auto simp add: stage_def)
    have "r = Throw e \<and> s' = s1" using h m Throw by (simp add: bindM_def)
    then show ?thesis using i1 by simp
  qed
qed

lemma stage_thenM: "stage ref n p0 c m c1 \<Longrightarrow> stage ref n p0 c1 k c' \<Longrightarrow> stage ref n p0 c (thenM m k) c'"
  unfolding thenM_def by (rule stage_bindM)

lemma stage_returnM: "stage ref n p0 c (returnM x) c"
  by (simp add: stage_def returnM_def)

lemma stage_seqM_Nil: "stage ref n p0 c (seqM []) c"
  by (simp add: stage_returnM)

lemma stage_seqM_Cons:
  "stage ref n p0 c m c1 \<Longrightarrow> stage ref n p0 c1 (seqM ms) c' \<Longrightarrow> stage ref n p0 c (seqM (m # ms)) c'"
  by (simp add: stage_thenM)

lemma stage_whenM:
  "(b \<Longrightarrow> stage ref n p0 c m c') \<Longrightarrow> c \<le> c' \<Longrightarrow> stage ref n p0 c (whenM b m) c'"
  using stage_weaken[OF stage_returnM, of c c' ref n p0 "()"] by (simp add: whenM_def)

lemma stage_when_reading:
  assumes "stage ref n p0 c m c'" and "c \<le> c'"
  shows "stage ref n p0 c (\<lambda>w. whenM (g w) m w) c'"
  unfolding stage_def
proof (intro allI impI)
  fix s r s' assume i: "progInv ref n p0 c s" and m: "whenM (g s) m s = (r, s')"
  show "case r of Ok x \<Rightarrow> progInv ref n p0 c' s' | Throw e \<Rightarrow> progInv ref n p0 100 s'"
  proof (cases "g s")
    case True
    then show ?thesis using assms(1) i m by (simp add: stage_def whenM_def)
  next
    case False
    then show ?thesis using i m progInv_mono[OF i assms(2)] by (auto simp add: whenM_def returnM_def)
  qed
qed

lemma sorted_le_last: "sorted (x # xs) \<Longrightarrow> y \<in> set (x # xs) \<Longrightarrow> y \<le> last (x # xs)"
  by (induction xs arbitrary: x) auto

lemma sorted_snoc_last:
  "sorted (p0 # xs) \<Longrightarrow> last (p0 # xs) \<le> (y::int) \<Longrightarrow> sorted (p0 # xs @ [y])"
proof -
  assume s: "sorted (p0 # xs)" and l: "last (p0 # xs) \<le> y"
  have "\<forall>x \<in> set (p0 # xs). x \<le> y"
    using sorted_le_last[OF s] l by (meson order_trans)
  then show ?thesis using s by (simp add: sorted_append)
qed

subsection \<open>The checkpoints and the interpolation\<close>

lemma progInv_emit:
  assumes "progInv ref n p0 c w" and "progress (heap w ref) \<le> p" and "p \<le> c'"
    and "events w' = events w @ [UpdateProgress a b st p m]" and "progress (heap w' ref) = p"
  shows "progInv ref n p0 c' w'"
proof -
  let ?xs = "progressValues (drop n (events w))"
  have n: "n \<le> length (events w)" and s: "sorted (p0 # ?xs)"
    and l: "progress (heap w ref) = last (p0 # ?xs)"
    using assms(1) unfolding progInv_def by blast+
  have dr: "drop n (events w') = drop n (events w) @ [UpdateProgress a b st p m]"
    unfolding assms(4) using n by simp
  have d: "progressValues (drop n (events w')) = ?xs @ [p]"
    unfolding dr progressValues_append by simp
  have le: "last (p0 # ?xs) \<le> p" using l assms(2) by (simp only:)
  have so: "sorted (p0 # ?xs @ [p])" using sorted_snoc_last[OF s le] .
  have la: "last (p0 # ?xs @ [p]) = p" by simp
  have n': "n \<le> length (events w')" unfolding assms(4) using n by simp
  show ?thesis
    unfolding progInv_def d
    using n' so la assms(3,5) by (simp only: simp_thms)
qed

lemma stage_updateSessionStatus:
  assumes "c \<le> c'" and "c' \<le> 100"
  shows "stage ref n p0 c (updateSessionStatus ref st c' msg) c'"
  unfolding stage_def
proof (intro allI impI)
  fix s r s' assume i: "progInv ref n p0 c s" and m: "updateSessionStatus ref st c' msg s = (r, s')"
  have le: "progress (heap s ref) \<le> c'" using i assms(1) by (simp add: progInv_def)
  have r: "r = Ok ()" and e: "events s' = events s @ [UpdateProgress (sessionId (heap s ref)) (serverId (heap s ref)) st c' (Some (Text msg))]"
    and p: "progress (heap s' ref) = c'"
    using m by (auto simp add: prim_defs monad_defs)
  show "case r of Ok x \<Rightarrow> progInv ref n p0 c' s' | Throw e \<Rightarrow> progInv ref n p0 100 s'"
    using progInv_emit[OF i le order_refl e p] r by simp
qed

lemma Math_round_mono: "x \<le> y \<Longrightarrow> Math_round x \<le> Math_round y"
  by (simp add: Math_round_def floor_mono)

lemma Math_round_int: "Math_round (real_of_int n) = n"
  unfolding Math_round_def by linarith

lemma number_exact:
  assumes "roundsToNumber f" and "\<bar>n\<bar> \<le> 2 ^ 53"
  shows "f (real_of_int n) = real_of_int n"
  using assms unfolding roundsToNumber_def by blast

lemma number_mono: "roundsToNumber f \<Longrightarrow> x \<le> y \<Longrightarrow> f x \<le> f y"
  unfolding roundsToNumber_def by blast

lemma interpolation_bounds:
  assumes "roundsToNumber f" and "0 \<le> p" and "p \<le> 100"
  shows "45 \<le> Math_round (f (45 + f (p * 0.25)))" and "Math_round (f (45 + f (p * 0.25))) \<le> 70"
proof -
  have f0: "f 0 = 0" using number_exact[OF assms(1), of 0] by simp
  have f25: "f 25 = 25" using number_exact[OF assms(1), of 25] by simp
  have f45: "f 45 = 45" using number_exact[OF assms(1), of 45] by simp
  have f70: "f 70 = 70" using number_exact[OF assms(1), of 70] by simp
  have lo: "0 \<le> f (p * 0.25)" using number_mono[OF assms(1), of 0 "p * 0.25"] assms(2) f0 by simp
  have hi: "f (p * 0.25) \<le> 25" using number_mono[OF assms(1), of "p * 0.25" 25] assms(3) f25 by simp
  have a: "45 \<le> f (45 + f (p * 0.25))"
    using number_mono[OF assms(1), of 45 "45 + f (p * 0.25)"] lo f45 by simp
  have b: "f (45 + f (p * 0.25)) \<le> 70"
    using number_mono[OF assms(1), of "45 + f (p * 0.25)" 70] hi f70 by simp
  have "Math_round (real_of_int 45) \<le> Math_round (f (45 + f (p * 0.25)))"
    using a by (intro Math_round_mono) simp
  then show "45 \<le> Math_round (f (45 + f (p * 0.25)))" by (simp only: Math_round_int)
  have "Math_round (f (45 + f (p * 0.25))) \<le> Math_round (real_of_int 70)"
    using b by (intro Math_round_mono) simp
  then show "Math_round (f (45 + f (p * 0.25))) \<le> 70" by (simp only: Math_round_int)
qed

lemma interpolation_mono:
  assumes "roundsToNumber f" and "p \<le> q"
  shows "Math_round (f (45 + f (p * 0.25))) \<le> Math_round (f (45 + f (q * 0.25)))"
proof -
  have "f (p * 0.25) \<le> f (q * 0.25)" using number_mono[OF assms(1)] assms(2) by simp
  then have "f (45 + f (p * 0.25)) \<le> f (45 + f (q * 0.25))" using number_mono[OF assms(1)] by simp
  then show ?thesis by (rule Math_round_mono)
qed

lemma waitLoop_progress:
  "providerMonotone env \<and> roundsToNumber (ieee env) \<Longrightarrow> progInv ref n p0 70 w \<Longrightarrow>
   (\<forall>j ds. k \<le> j \<and> poll env j = Some ds \<longrightarrow> progress (heap w ref) \<le> Math_round (ieee env (45 + ieee env (d_progress ds * 0.25)))) \<Longrightarrow>
   waitLoop env ref k w = (r, w') \<Longrightarrow> progInv ref n p0 70 w'"
proof (induction env ref k w arbitrary: r w' rule: waitLoop.induct)
  case (1 env ref k w)
  note unf = waitLoop.simps[of env ref k w]
  note pm = "1.prems"(1)
  show ?case
  proof (cases "ticksBeforeTimeout env < k")
    case True
    then show ?thesis using "1.prems" unf by simp
  next
    case inrange: False
    define w1 where "w1 = (if cancelAt env k then snd (cancelUpdate env (sessionId (heap w ref)) w) else w)"
    have q: "quietRel ref w w1"
      using relD[OF q_cancelUpdate, of env "sessionId (heap w ref)" w "fst (cancelUpdate env (sessionId (heap w ref)) w)"
          "snd (cancelUpdate env (sessionId (heap w ref)) w)" ref] preorder_refl[OF quietRel_preorder]
      by (simp add: w1_def)
    have i1: "progInv ref n p0 70 w1" using progInv_quiet[OF "1.prems"(2) q] .
    have p1: "progress (heap w1 ref) = progress (heap w ref)" using q by (simp add: quietRel_def)
    show ?thesis
    proof (cases "sessionFailed ref w1")
      case True
      then show ?thesis using "1.prems"(4) unf inrange i1 by (simp add: w1_def Let_def)
    next
      case nf: False
      show ?thesis
      proof (cases "poll env k")
        case None
        then show ?thesis using "1.prems"(4) unf inrange nf i1 by (simp add: w1_def Let_def)
      next
        case (Some ds)
        let ?p = "Math_round (ieee env (45 + ieee env (d_progress ds * 0.25)))"
        define w2 where "w2 = snd (seqM
                     [setSession ref (\<lambda>s. s\<lparr>progress := Math_round (ieee env (45 + ieee env (d_progress ds * 0.25))),
                                            message := Some (DownloadingPercent (d_progress ds))\<rparr>),
                      sessions_set ref,
                      (\<lambda>w. emit (UpdateProgress (sessionId (heap w ref)) (serverId (heap w ref))
                                   (status (heap w ref)) (progress (heap w ref)) (message (heap w ref))) w)] w1)"
        have e2: "events w2 = events w1 @ [UpdateProgress (sessionId (heap w1 ref)) (serverId (heap w1 ref))
              (status (heap w1 ref)) ?p (Some (DownloadingPercent (d_progress ds)))]"
          and p2: "progress (heap w2 ref) = ?p"
          by (simp_all add: w2_def prim_defs monad_defs)
        have le: "progress (heap w1 ref) \<le> ?p" using "1.prems"(3) Some p1 by auto
        have rng: "0 \<le> d_progress ds \<and> d_progress ds \<le> 100"
          using pm Some unfolding providerMonotone_def by blast
        have b: "?p \<le> 70" using interpolation_bounds(2)[of "ieee env" "d_progress ds"] pm rng by simp
        have i2: "progInv ref n p0 70 w2" using progInv_emit[OF i1 le b e2 p2] .
        have next_le: "\<forall>j ds'. Suc k \<le> j \<and> poll env j = Some ds' \<longrightarrow>
            progress (heap w2 ref) \<le> Math_round (ieee env (45 + ieee env (d_progress ds' * 0.25)))"
        proof (intro allI impI)
          fix j ds' assume h: "Suc k \<le> j \<and> poll env j = Some ds'"
          then have "k \<le> j \<and> poll env k = Some ds \<and> poll env j = Some ds'" using Some by simp
          then have "d_progress ds \<le> d_progress ds'"
            using pm unfolding providerMonotone_def by blast
          then show "progress (heap w2 ref) \<le> Math_round (ieee env (45 + ieee env (d_progress ds' * 0.25)))"
            unfolding p2 using interpolation_mono[of "ieee env"] pm by blast
        qed
        show ?thesis
        proof (cases "d_status ds = ''complete'' \<or> d_status ds = ''failed''")
          case True
          then have "w' = w2" using "1.prems"(4) unf inrange nf Some
            by (auto simp add: w1_def w2_def Let_def)
          then show ?thesis using i2 by simp
        next
          case False
          then have rec: "waitLoop env ref (Suc k) w2 = (r, w')"
            using "1.prems"(4) unf inrange nf Some by (simp add: w1_def w2_def Let_def)
          show ?thesis
            using "1.IH"[OF inrange w1_def nf Some refl refl w2_def _ _ pm i2 next_le rec] False by simp
        qed
      qed
    qed
  qed
qed

lemma stage_waitForDownload:
  assumes "providerMonotone env \<and> roundsToNumber (ieee env)"
  shows "stage ref n p0 45 (waitForDownload env dl ref) 70"
  unfolding stage_def
proof (intro allI impI)
  fix s r s' assume i: "progInv ref n p0 45 s" and m: "waitForDownload env dl ref s = (r, s')"
  have i70: "progInv ref n p0 70 s" using progInv_mono[OF i] by simp
  have le: "\<forall>j ds. 1 \<le> j \<and> poll env j = Some ds \<longrightarrow> progress (heap s ref) \<le> Math_round (ieee env (45 + ieee env (d_progress ds * 0.25)))"
  proof (intro allI impI)
    fix j ds assume "1 \<le> j \<and> poll env j = Some ds"
    then have "0 \<le> d_progress ds \<and> d_progress ds \<le> 100"
      using assms unfolding providerMonotone_def by blast
    then have "45 \<le> Math_round (ieee env (45 + ieee env (d_progress ds * 0.25)))"
      using interpolation_bounds(1)[of "ieee env" "d_progress ds"] assms by simp
    moreover have "progress (heap s ref) \<le> 45" using i by (simp add: progInv_def)
    ultimately show "progress (heap s ref) \<le> Math_round (ieee env (45 + ieee env (d_progress ds * 0.25)))" by simp
  qed
  have "progInv ref n p0 70 s'"
    using waitLoop_progress[OF assms i70 le] m by (simp add: waitForDownload_def)
  then show "case r of Ok x \<Rightarrow> progInv ref n p0 70 s' | Throw e \<Rightarrow> progInv ref n p0 100 s'"
    using progInv_mono[of ref n p0 70 s' 100] by (cases r) simp_all
qed

subsection \<open>The stages of the pipeline\<close>

lemma stage_q_Cons:
  "rel (quietRel ref) m \<Longrightarrow> c \<le> 100 \<Longrightarrow> stage ref n p0 c (seqM ms) c' \<Longrightarrow> stage ref n p0 c (seqM (m # ms)) c'"
  by (rule stage_seqM_Cons[OF stage_quiet])

lemma stage_u_Cons:
  "c \<le> c1 \<Longrightarrow> c1 \<le> 100 \<Longrightarrow> stage ref n p0 c1 (seqM ms) c'
   \<Longrightarrow> stage ref n p0 c (seqM (updateSessionStatus ref st c1 msg # ms)) c'"
  by (rule stage_seqM_Cons[OF stage_updateSessionStatus])

lemma q_sleep: "rel (quietRel ref) (sleep d)"
  by (rule rel_sleep[OF quietRel_fsClosed])

lemma stage_stopBlock:
  "stage ref n p0 5 (\<lambda>w. whenM (wasRunning (heap w ref))
          (seqM
            [updateSessionStatus ref stopping 5 ''Stopping server...'',
             updateHistoryStatus hid stopping None,
             whenM (hasServerService env)
               (seqM [(\<lambda>w. stopServer env (serverId (heap w ref)) w), sleep 2000])]) w) 5"
proof (rule stage_when_reading)
  have q: "rel (quietRel ref) (whenM (hasServerService env)
               (seqM [(\<lambda>w. stopServer env (serverId (heap w ref)) w), sleep 2000]))"
    by (intro rel_whenM rel_seqM_Cons rel_seqM_Nil q_stopServer q_sleep quietRel_preorder)
  show "stage ref n p0 5 (seqM
            [updateSessionStatus ref stopping 5 ''Stopping server...'',
             updateHistoryStatus hid stopping None,
             whenM (hasServerService env)
               (seqM [(\<lambda>w. stopServer env (serverId (heap w ref)) w), sleep 2000])]) 5"
    apply (rule stage_u_Cons, simp, simp)
    apply (rule stage_q_Cons[OF q_updateHistoryStatus], simp)
    apply (rule stage_q_Cons[OF q], simp)
    apply (rule stage_seqM_Nil)
    done
qed simp

lemma stage_startBlock:
  "stage ref n p0 80 (\<lambda>w. whenM (wasRunning (heap w ref))
          (seqM
            [updateSessionStatus ref starting 90 ''Starting server...'',
             updateHistoryStatus hid starting None,
             whenM (hasServerService env) (\<lambda>w. startServer env (serverId (heap w ref)) w)]) w) 90"
proof (rule stage_when_reading)
  have q: "rel (quietRel ref) (whenM (hasServerService env) (\<lambda>w. startServer env (serverId (heap w ref)) w))"
    by (intro rel_whenM q_startServer quietRel_preorder)
  show "stage ref n p0 80 (seqM
            [updateSessionStatus ref starting 90 ''Starting server...'',
             updateHistoryStatus hid starting None,
             whenM (hasServerService env) (\<lambda>w. startServer env (serverId (heap w ref)) w)]) 90"
    apply (rule stage_u_Cons, simp, simp)
    apply (rule stage_q_Cons[OF q_updateHistoryStatus], simp)
    apply (rule stage_q_Cons[OF q], simp)
    apply (rule stage_seqM_Nil)
    done
qed simp

lemma stage_untilPreserved: "stage ref n p0 5 (untilPreserved env server ref hid) 30"
proof -
  have qb: "rel (quietRel ref) (whenM (hasBackupService env)
          (bindM (\<lambda>w. createBackup env (serverId (heap w ref))
                    (''Pre-update backup ('' @ fromVersion (heap w ref) @ '' -> ''
                       @ toVersion (heap w ref) @ '')'') w)
             (\<lambda>backup. seqM
               [setSession ref (\<lambda>s. s\<lparr>backupId := Some backup\<rparr>),
                (\<lambda>w. server_update (serverId (heap w ref)) (\<lambda>sv. sv\<lparr>preUpdateBackupId := Some backup\<rparr>) w),
                history_update hid (\<lambda>h. h\<lparr>h_backupId := Some backup\<rparr>)])))"
    by (intro rel_whenM rel_bindM rel_seqM_Cons rel_seqM_Nil q_createBackup q_setSession q_server_update
          q_history_update quietRel_preorder) simp
  have qp: "rel (quietRel ref) (bindM (identifyPreservedPaths env (serverPath server))
          (\<lambda>preserved. preserveFiles env (serverPath server) preserved))"
    by (intro rel_bindM rel_identifyPreservedPaths rel_preserveFiles quietRel_fsClosed quietRel_preorder)
  show ?thesis
    unfolding untilPreserved_def
    apply (rule stage_thenM[where ?c1.0=30])
     apply (rule stage_seqM_Cons[OF stage_stopBlock])
     apply (rule stage_u_Cons, simp, simp)
     apply (rule stage_q_Cons[OF q_updateHistoryStatus], simp)
     apply (rule stage_q_Cons[OF qb], simp)
     apply (rule stage_u_Cons, simp, simp)
     apply (rule stage_q_Cons[OF q_updateHistoryStatus], simp)
     apply (rule stage_seqM_Nil)
    apply (rule stage_quiet[OF qp], simp)
    done
qed

lemma stage_untilRestored:
  assumes "providerMonotone env \<and> roundsToNumber (ieee env)"
  shows "stage ref n p0 30 (untilRestored env server ref hid t) 80"
proof -
  let ?dir = "serverPath server @ [''Server'']"
  have qw: "rel (quietRel ref) (\<lambda>w. whenM (fs_pathExists ?dir w)
          (bindM (fs_readdir env ?dir)
             (\<lambda>items. forM items (\<lambda>item. removeWithRetry env (?dir @ [item]) 5 1000))) w)"
    by (intro rel_when_reading rel_bindM rel_forM rel_fs_readdir rel_removeWithRetry quietRel_fsClosed quietRel_preorder)
  have qr: "rel (quietRel ref) (whenM (t \<noteq> []) (restorePreservedFiles env t (serverPath server)))"
    by (intro rel_whenM rel_restorePreservedFiles quietRel_fsClosed quietRel_preorder)
  have dl: "stage ref n p0 45 (bindM (startDownload env (serverPath server))
          (\<lambda>downloadSess. seqM
            [setSession ref (\<lambda>s. s\<lparr>downloadSessionId := Some downloadSess\<rparr>),
             sessions_set ref,
             waitForDownload env downloadSess ref])) 70"
    apply (rule stage_bindM[OF stage_quiet[OF q_startDownload]], simp)
    apply (rule stage_q_Cons[OF q_setSession], simp, simp)
    apply (rule stage_q_Cons[OF q_sessions_set], simp)
    apply (rule stage_seqM_Cons[OF stage_waitForDownload[OF assms]])
    apply (rule stage_seqM_Nil)
    done
  show ?thesis
    unfolding untilRestored_def Let_def
    apply (rule stage_q_Cons[OF q_setSession], simp, simp)
    apply (rule stage_q_Cons[OF q_sessions_set], simp)
    apply (rule stage_u_Cons, simp, simp)
    apply (rule stage_q_Cons[OF q_updateHistoryStatus], simp)
    apply (rule stage_q_Cons[OF qw], simp)
    apply (rule stage_seqM_Cons[OF dl])
    apply (rule stage_u_Cons, simp, simp)
    apply (rule stage_q_Cons[OF q_updateHistoryStatus], simp)
    apply (rule stage_q_Cons[OF q_jarCheck], simp)
    apply (rule stage_u_Cons, simp, simp)
    apply (rule stage_q_Cons[OF q_updateHistoryStatus], simp)
    apply (rule stage_q_Cons[OF qr], simp)
    apply (rule stage_seqM_Nil)
    done
qed

lemma stage_afterRestored: "stage ref n p0 80 (afterRestored env server ref hid) 100"
proof -
  have qn: "rel (quietRel ref) (whenM (hasDiscordService env) (notify ''server_update_completed'' (name server)))"
    by (intro rel_whenM q_notify quietRel_preorder)
  show ?thesis
    unfolding afterRestored_def
    apply (rule stage_q_Cons[OF q_server_update], simp)
    apply (rule stage_seqM_Cons[OF stage_startBlock])
    apply (rule stage_u_Cons, simp, simp)
    apply (rule stage_q_Cons[OF q_updateHistoryStatus], simp)
    apply (rule stage_q_Cons[OF q_history_update], simp)
    apply (rule stage_q_Cons[OF q_emit], simp, simp)
    apply (rule stage_q_Cons[OF qn], simp)
    apply (rule stage_seqM_Nil)
    done
qed

lemma stageD:
  "stage ref n p0 c m c' \<Longrightarrow> progInv ref n p0 c s \<Longrightarrow> m s = (r, s')
   \<Longrightarrow> (case r of Ok x \<Rightarrow> progInv ref n p0 c' s' | Throw e \<Rightarrow> progInv ref n p0 100 s')"
  unfolding stage_def by blast

lemma handler_keeps_progress:
  "progInv ref n p0 100 s \<Longrightarrow> failureHandler env server ref hid tmp e s = (r, s') \<Longrightarrow> progInv ref n p0 100 s'"
  using progInv_quiet[OF _ relD[OF q_failureHandler]] by blast

lemma pipeline_progress:
  assumes pm: "providerMonotone env \<and> roundsToNumber (ieee env)" and i: "progInv ref n p0 5 w"
    and run: "executeUpdatePipeline env ref hid w = (r, w')"
  shows "progInv ref n p0 100 w'"
proof (cases "servers w (serverId (heap w ref))")
  case None
  then have "w' = w" using run by (simp add: executeUpdatePipeline_def)
  then show ?thesis using progInv_mono[OF i] by simp
next
  case (Some server)
  obtain r1 w1 where s1: "untilPreserved env server ref hid w = (r1, w1)" by (cases "untilPreserved env server ref hid w")
  note a1 = stageD[OF stage_untilPreserved i s1]
  show ?thesis
  proof (cases r1)
    case (Throw e)
    then have h: "failureHandler env server ref hid None e w1 = (r, w')"
      using run Some s1 by (simp add: executeUpdatePipeline_def tryBlock_def)
    have "progInv ref n p0 100 w1" using a1 Throw by simp
    then show ?thesis using handler_keeps_progress h by blast
  next
    case (Ok t)
    then have i1: "progInv ref n p0 30 w1" using a1 by simp
    obtain r2 w2 where s2: "untilRestored env server ref hid t w1 = (r2, w2)" by (cases "untilRestored env server ref hid t w1")
    note a2 = stageD[OF stage_untilRestored[OF pm] i1 s2]
    show ?thesis
    proof (cases r2)
      case Throw2: (Throw e)
      then have h: "failureHandler env server ref hid (Some t) e w2 = (r, w')"
        using run Some s1 Ok s2 by (simp add: executeUpdatePipeline_def tryBlock_def)
      have "progInv ref n p0 100 w2" using a2 Throw2 by simp
      then show ?thesis using handler_keeps_progress h by blast
    next
      case Ok2: (Ok u)
      then have i2: "progInv ref n p0 80 w2" using a2 by simp
      obtain r3 w3 where s3: "afterRestored env server ref hid w2 = (r3, w3)" by (cases "afterRestored env server ref hid w2")
      note a3 = stageD[OF stage_afterRestored i2 s3]
      show ?thesis
      proof (cases r3)
        case Throw3: (Throw e)
        then have h: "failureHandler env server ref hid None e w3 = (r, w')"
          using run Some s1 Ok s2 Ok2 s3 by (simp add: executeUpdatePipeline_def tryBlock_def)
        have "progInv ref n p0 100 w3" using a3 Throw3 by simp
        then show ?thesis using handler_keeps_progress h by blast
      next
        case Ok3: (Ok v)
        then have "w' = w3" using run Some s1 Ok s2 Ok2 s3 by (simp add: executeUpdatePipeline_def tryBlock_def)
        then show ?thesis using a3 Ok3 by simp
      qed
    qed
  qed
qed

text \<open>
  C7. When the provider's percentage stays within 0 and 100 and never decreases, and the
  arithmetic of Numbers rounds as IEEE 754 does, then for a run of the pipeline on a
  session whose progress is at most 5 (a session starts at 0), however the run ends: the
  progress values of the \<open>update:progress\<close> events it emits, after the progress the session
  had at the start, never decrease; the progress recorded on the session at the end is the
  last of them and at most 100; and the progress computed from a percentage during the
  download lies between 45 and 70 and never decreases with the percentage.
\<close>

theorem progress_never_decreases:
  assumes "providerMonotone env" and "roundsToNumber (ieee env)" and "progress (heap w ref) \<le> 5"
    and "executeUpdatePipeline env ref hid w = (r, w')"
  shows "prefix (events w) (events w')
     \<and> sorted (progress (heap w ref) # progressValues (drop (length (events w)) (events w')))
     \<and> progress (heap w' ref) = last (progress (heap w ref) # progressValues (drop (length (events w)) (events w')))
     \<and> progress (heap w' ref) \<le> 100
     \<and> (\<forall>p. 0 \<le> p \<and> p \<le> 100 \<longrightarrow>
           45 \<le> Math_round (ieee env (45 + ieee env (p * 0.25)))
           \<and> Math_round (ieee env (45 + ieee env (p * 0.25))) \<le> 70)
     \<and> (\<forall>p q. p \<le> q \<longrightarrow>
           Math_round (ieee env (45 + ieee env (p * 0.25))) \<le> Math_round (ieee env (45 + ieee env (q * 0.25))))"
proof -
  have i: "progInv ref (length (events w)) (progress (heap w ref)) 5 w"
    using assms(3) by (simp add: progInv_def)
  have pm: "providerMonotone env \<and> roundsToNumber (ieee env)" using assms(1,2) by simp
  have f: "progInv ref (length (events w)) (progress (heap w ref)) 100 w'"
    using pipeline_progress[OF pm i assms(4)] .
  have p: "prefix (events w) (events w')"
    using relD[OF pr_executeUpdatePipeline assms(4)] by (simp add: pipeRel_def frameRel_def)
  have b: "\<forall>p. 0 \<le> p \<and> p \<le> 100 \<longrightarrow>
           45 \<le> Math_round (ieee env (45 + ieee env (p * 0.25)))
           \<and> Math_round (ieee env (45 + ieee env (p * 0.25))) \<le> 70"
    using interpolation_bounds[OF assms(2)] by blast
  have m: "\<forall>p q. p \<le> q \<longrightarrow>
           Math_round (ieee env (45 + ieee env (p * 0.25))) \<le> Math_round (ieee env (45 + ieee env (q * 0.25)))"
    using interpolation_mono[OF assms(2)] by blast
  from f have "sorted (progress (heap w ref) # progressValues (drop (length (events w)) (events w')))"
    and "progress (heap w' ref) = last (progress (heap w ref) # progressValues (drop (length (events w)) (events w')))"
    and "progress (heap w' ref) \<le> 100"
    unfolding progInv_def by blast+
  then show ?thesis using p b m by blast
qed

lemma slow_run:
  "progressValues (events (snd (executeUpdatePipeline slowEnv 0 0 startedWorld)))
     = [15, 30, 45, 48, 58, 70, 70, 80, 100]"
  by (simp add: run_defs world_defs slowEnv_def)

lemma slowEnv_monotone: "providerMonotone slowEnv"
  by (auto simp add: providerMonotone_def slowEnv_def installEnv_def quietEnv_def split: if_splits)

theorem progress_never_decreases_witness:
  "providerMonotone slowEnv \<and> roundsToNumber (ieee slowEnv) \<and> progress (heap startedWorld 0) \<le> 5
   \<and> progressValues (drop (length (events startedWorld)) (events (snd (executeUpdatePipeline slowEnv 0 0 startedWorld))))
        = [15, 30, 45, 48, 58, 70, 70, 80, 100]
   \<and> sorted (progress (heap startedWorld 0)
        # progressValues (drop (length (events startedWorld)) (events (snd (executeUpdatePipeline slowEnv 0 0 startedWorld)))))
   \<and> progress (heap (snd (executeUpdatePipeline slowEnv 0 0 startedWorld)) 0) = 100"
proof -
  have h2: "roundsToNumber (ieee slowEnv)"
    by (simp add: roundsToNumber_def slowEnv_def installEnv_def quietEnv_def)
  have h3: "progress (heap startedWorld 0) \<le> 5"
    by (simp add: startedWorld_def startedSession_def blankSession_def)
  have h4: "executeUpdatePipeline slowEnv 0 0 startedWorld
     = (fst (executeUpdatePipeline slowEnv 0 0 startedWorld), snd (executeUpdatePipeline slowEnv 0 0 startedWorld))"
    by simp
  have ev: "length (events startedWorld) = 0" by (simp add: world_defs)
  note th = progress_never_decreases[OF slowEnv_monotone h2 h3 h4]
  have s: "sorted (progress (heap startedWorld 0)
        # progressValues (drop (length (events startedWorld)) (events (snd (executeUpdatePipeline slowEnv 0 0 startedWorld)))))"
    using th by blast
  have l: "progress (heap (snd (executeUpdatePipeline slowEnv 0 0 startedWorld)) 0)
     = last (progress (heap startedWorld 0)
        # progressValues (drop (length (events startedWorld)) (events (snd (executeUpdatePipeline slowEnv 0 0 startedWorld)))))"
    using th by blast
  have v: "progressValues (drop (length (events startedWorld)) (events (snd (executeUpdatePipeline slowEnv 0 0 startedWorld))))
        = [15, 30, 45, 48, 58, 70, 70, 80, 100]"
    unfolding ev using slow_run by simp
  have l': "progress (heap (snd (executeUpdatePipeline slowEnv 0 0 startedWorld)) 0) = 100"
    unfolding l v by simp
  show ?thesis using slowEnv_monotone h2 h3 v s l' by blast
qed

end
